theory Spec2Isabelle
  imports Main
begin

section \<open>Path handling and formatting used by the Writer\<close>

text \<open>
  The program calls a handful of functions of Go's standard library. They are modelled
  here as Go documents them for Unix paths (separator \<open>/\<close>, no volume names).
\<close>

definition IsPathSeparator :: "char \<Rightarrow> bool" where
  "IsPathSeparator c = (c = CHR ''/'')"

text \<open>\<open>strings.Split(path, "/")\<close>: the elements between separators, empty ones kept.\<close>

fun split_elems :: "string \<Rightarrow> string \<Rightarrow> string list" where
  "split_elems [] cur = [rev cur]"
| "split_elems (c # cs) cur =
     (if IsPathSeparator c then rev cur # split_elems cs [] else split_elems cs (c # cur))"

text \<open>
  The element stack of \<open>filepath.Clean\<close>, top first: empty and \<open>.\<close> elements are
  dropped; \<open>..\<close> removes the element before it, is kept at the start of a relative path
  (and after other \<open>..\<close>), and is dropped at the root.
\<close>

fun clean_elems :: "bool \<Rightarrow> string list \<Rightarrow> string list \<Rightarrow> string list" where
  "clean_elems rooted [] out = out"
| "clean_elems rooted (e # es) out =
     (if e = [] \<or> e = ''.'' then clean_elems rooted es out
      else if e = ''..'' then
        (case out of
           [] \<Rightarrow> if rooted then clean_elems rooted es [] else clean_elems rooted es [''..'']
         | t # ts \<Rightarrow>
             if t = ''..'' then clean_elems rooted es (''..'' # out)
             else clean_elems rooted es ts)
      else clean_elems rooted es (e # out))"

fun join_elems :: "string list \<Rightarrow> string" where
  "join_elems [] = []"
| "join_elems [e] = e"
| "join_elems (e # es) = e @ ''/'' @ join_elems es"

definition Clean :: "string \<Rightarrow> string" where
  "Clean path =
     (if path = [] then ''.''
      else
        let rooted = IsPathSeparator (hd path);
            out = join_elems (rev (clean_elems rooted (split_elems path []) []))
        in if rooted then ''/'' @ out else if out = [] then ''.'' else out)"

text \<open>\<open>filepath.Ext\<close>: the suffix of the last element from its last dot on.\<close>

fun ext_scan :: "string \<Rightarrow> string \<Rightarrow> string" where
  "ext_scan [] acc = []"
| "ext_scan (c # cs) acc =
     (if IsPathSeparator c then []
      else if c = CHR ''.'' then c # acc
      else ext_scan cs (c # acc))"

definition Ext :: "string \<Rightarrow> string" where
  "Ext path = ext_scan (rev path) []"

text \<open>\<open>filepath.Base\<close>: the last element, trailing separators stripped first.\<close>

definition Base :: "string \<Rightarrow> string" where
  "Base path =
     (if path = [] then ''.''
      else
        let stripped = dropWhile IsPathSeparator (rev path);
            el = rev (takeWhile (\<lambda>c. \<not> IsPathSeparator c) stripped)
        in if el = [] then ''/'' else el)"

text \<open>\<open>filepath.Dir\<close>: everything up to the last separator, cleaned.\<close>

definition Dir :: "string \<Rightarrow> string" where
  "Dir path = Clean (rev (dropWhile (\<lambda>c. \<not> IsPathSeparator c) (rev path)))"

text \<open>\<open>filepath.Join\<close> of two elements: empty elements before the first non-empty one
  are ignored, the rest is joined with separators and cleaned.\<close>

definition Join :: "string \<Rightarrow> string \<Rightarrow> string" where
  "Join a b =
     (if a \<noteq> [] then Clean (a @ ''/'' @ b)
      else if b \<noteq> [] then Clean b
      else [])"

definition TrimSuffix :: "string \<Rightarrow> string \<Rightarrow> string" where
  "TrimSuffix s suffix =
     (if length suffix \<le> length s \<and> drop (length s - length suffix) s = suffix
      then take (length s - length suffix) s else s)"

text \<open>Decimal rendering of a non-negative integer (\<open>%d\<close>).\<close>

definition digit_char :: "nat \<Rightarrow> char" where
  "digit_char d = ''0123456789'' ! (d mod 10)"

fun decimal :: "nat \<Rightarrow> string" where
  "decimal n = (if n < 10 then [digit_char n] else decimal (n div 10) @ [digit_char (n mod 10)])"

declare decimal.simps [simp del]

text \<open>
  \<open>fmt.Sprintf(format, i)\<close> with one integer argument. The format is scanned for
  \<open>%\<close>: \<open>%d\<close> prints the argument if it is still unused and \<open>%!d(MISSING)\<close>
  otherwise, \<open>%%\<close> prints a percent sign and uses no argument, and an argument left
  unused at the end is reported as \<open>%!(EXTRA int=i)\<close>. Every other directive
  (flags, widths, other verbs, a trailing \<open>%\<close>) is outside what is modelled: there
  the rest of the output is whatever the parameter \<open>other\<close> says.
\<close>

fun Sprintf :: "(string \<Rightarrow> nat option \<Rightarrow> string) \<Rightarrow> string \<Rightarrow> nat option \<Rightarrow> string" where
  "Sprintf other [] None = []"
| "Sprintf other [] (Some i) = ''%!(EXTRA int='' @ decimal i @ '')''"
| "Sprintf other (c # cs) arg =
     (if c \<noteq> CHR ''%'' then c # Sprintf other cs arg
      else
        (case cs of
           [] \<Rightarrow> other (c # cs) arg
         | v # rest \<Rightarrow>
             if v = CHR ''d'' then
               (case arg of
                  Some i \<Rightarrow> decimal i @ Sprintf other rest None
                | None \<Rightarrow> ''%!d(MISSING)'' @ Sprintf other rest None)
             else if v = CHR ''%'' then CHR ''%'' # Sprintf other rest arg
             else other (c # cs) arg))"


section \<open>The file system, and the Writer's naming and writing of one image\<close>

datatype errno = ENOENT | EACCES | EISDIR | ENOSPC

text \<open>Go error values, as far as the program can tell them apart.\<close>

datatype error =
    OsError errno
  | FmtError string
  | NetError string
  | RuntimeError string

text \<open>
  A path names a file with its bytes, a directory, or something \<open>os.Stat\<close> cannot
  look at (permission denied); a path the map does not hold does not exist. \<open>free\<close> is
  the room left on the device.
\<close>

datatype node = File string | Directory | Unreadable

record fsys =
  nodes :: "string \<Rightarrow> node option"
  free :: nat

text \<open>\<open>os.Stat\<close> only looks: it returns its error (if any) and the file system as it was.\<close>

definition os_Stat :: "fsys \<Rightarrow> string \<Rightarrow> error option \<times> fsys" where
  "os_Stat fs path =
     (case nodes fs path of
        None \<Rightarrow> (Some (OsError ENOENT), fs)
      | Some Unreadable \<Rightarrow> (Some (OsError EACCES), fs)
      | Some _ \<Rightarrow> (None, fs))"

definition IsNotExist :: "error option \<Rightarrow> bool" where
  "IsNotExist err = (err = Some (OsError ENOENT))"

text \<open>\<open>os.Create\<close>: creates or truncates the file; the handle is the path.\<close>

definition os_Create :: "fsys \<Rightarrow> string \<Rightarrow> (error + string) \<times> fsys" where
  "os_Create fs path =
     (case nodes fs path of
        Some Directory \<Rightarrow> (Inl (OsError EISDIR), fs)
      | Some Unreadable \<Rightarrow> (Inl (OsError EACCES), fs)
      | _ \<Rightarrow>
          if nodes fs (Dir path) = Some Directory
          then (Inr path, fs\<lparr>nodes := (nodes fs)(path \<mapsto> File [])\<rparr>)
          else (Inl (OsError ENOENT), fs))"

text \<open>\<open>file.Write\<close> on a freshly created file: what fits is written.\<close>

definition file_Write :: "fsys \<Rightarrow> string \<Rightarrow> string \<Rightarrow> error option \<times> fsys" where
  "file_Write fs file img =
     (let written = take (free fs) img;
          fs' = fs\<lparr>nodes := (nodes fs)(file \<mapsto> File written), free := free fs - length written\<rparr>
      in (if length img \<le> free fs then None else Some (OsError ENOSPC), fs'))"

text \<open>A response body (\<open>io.ReadCloser\<close>): the bytes it yields and the error, if any,
  that ends the reading.\<close>

datatype body = Body string "error option"

fun ReadAll :: "body \<Rightarrow> string \<times> error option" where
  "ReadAll (Body bytes err) = (bytes, err)"

definition maxIndices :: nat where
  "maxIndices = 100"

text \<open>The loop of \<open>validFilenameMaker\<close>: \<open>for i := 0; i < maxIndices; i++\<close>.\<close>

function vfm_loop ::
  "(string \<Rightarrow> nat option \<Rightarrow> string) \<Rightarrow> fsys \<Rightarrow> string \<Rightarrow> string \<Rightarrow> string \<Rightarrow> nat
     \<Rightarrow> (string \<times> error option) \<times> fsys" where
  "vfm_loop other fs dir format base i =
     (if i < maxIndices then
        (let filename = Sprintf other format (Some i);
             fullPath = Join dir filename;
             (err, fs1) = os_Stat fs fullPath
         in if IsNotExist err then ((fullPath, None), fs1)
            else vfm_loop other fs1 dir format base (i + 1))
      else
        (([], Some (FmtError (''a number (maxIndices) of files have a similar name to '' @ base))),
         fs))"
  by pat_completeness auto
termination
  by (relation "measure (\<lambda>(other, fs, dir, format, base, i). maxIndices - i)") auto

declare vfm_loop.simps [simp del]

definition validFilenameMaker ::
  "(string \<Rightarrow> nat option \<Rightarrow> string) \<Rightarrow> fsys \<Rightarrow> string \<Rightarrow> (string \<times> error option) \<times> fsys" where
  "validFilenameMaker other fs writePath =
     (let (err, fs0) = os_Stat fs writePath
      in if IsNotExist err then ((writePath, None), fs0)
         else
           (let ext = Ext writePath;
                base = Base writePath;
                dir = Dir writePath;
                noSuffix = TrimSuffix base ext
            in vfm_loop other fs0 dir (noSuffix @ ''_%d'' @ ext) base 0))"

text \<open>\<open>Writer.Write\<close>, with \<open>w.dir\<close> given: the error it returns and the file system
  it leaves.\<close>

definition Writer_Write ::
  "(string \<Rightarrow> nat option \<Rightarrow> string) \<Rightarrow> fsys \<Rightarrow> string \<Rightarrow> string \<Rightarrow> body \<Rightarrow> error option \<times> fsys" where
  "Writer_Write other fs wdir imgName rc =
     (let candidatePath = Join wdir imgName;
          ((validPath, err), fs1) = validFilenameMaker other fs candidatePath
      in case err of
           Some e \<Rightarrow> (Some e, fs1)
         | None \<Rightarrow>
             (case os_Create fs1 validPath of
                (Inl e, fs2) \<Rightarrow> (Some e, fs2)
              | (Inr file, fs2) \<Rightarrow>
                  (case ReadAll rc of
                     (img, Some e) \<Rightarrow> (Some e, fs2)
                   | (img, None) \<Rightarrow>
                       (case file_Write fs2 file img of
                          (Some e, fs3) \<Rightarrow> (Some e, fs3)
                        | (None, fs3) \<Rightarrow> (None, fs3)))))"

section \<open>The pipeline: Requester, Spawner, Getters, Writer and the supervising main\<close>

text \<open>
  The goroutines are modelled as tasks that take turns: a run is a sequence of steps, each
  one statement (or a few local ones) of one task, or one meeting of a send with its
  receive. Assignments are atomic. The model starts where \<open>main\<close> has parsed its flags
  and starts the Requester and the Spawner; it assumes that \<open>Requester.Request\<close> and
  \<open>http.Get\<close> return. The sources name no language version, and the \<open>range\<close> loop of
  the Requester depends on it: from Go 1.22 on every iteration has a variable \<open>pair\<close> of its
  own, before that all iterations share one. The model takes this as a parameter of the run
  and keeps the loop variables in a store, since the Requester sends their addresses.
\<close>

datatype OperationStatus = Success | Failure

record OperationReply =
  ObjType :: string
  Status :: OperationStatus
  ErrorMsg :: "error option"

record ImgData =
  name :: string
  content :: body

record ResultPair =
  Title :: string
  MediaUrl :: string

record Response =
  StatusCode :: nat
  RespBody :: body

text \<open>
  \<open>NewSpawner\<close> stores its arguments; the two channels are the pipeline's shared
  channels of the state below and are not fields of the model.
\<close>

record Spawner =
  outputDir :: string
  maxRoutines :: int

definition NewSpawner :: "string \<Rightarrow> int \<Rightarrow> Spawner" where
  "NewSpawner dir routines = \<lparr>outputDir = dir, maxRoutines = routines\<rparr>"

text \<open>
  What a run depends on from outside the program: the result of \<open>Requester.Request\<close>
  (the search and its parsing), the answer of \<open>http.Get\<close> to the request of the
  \<open>i\<close>-th launched Getter, the formatting directives outside the model of
  \<open>Sprintf\<close>, the file system at the start, and the Spawner as \<open>main\<close> constructs it.
  \<open>per_iteration_var\<close> says how the program was built: whether every iteration of a
  \<open>range\<close> loop has its own variable (Go 1.22 and later) or all share one (earlier).
\<close>

record config =
  search :: "error + ResultPair list"
  http_Get :: "nat \<Rightarrow> string \<Rightarrow> error + Response"
  fmt_other :: "string \<Rightarrow> nat option \<Rightarrow> string"
  disk :: fsys
  spawner :: Spawner
  per_iteration_var :: bool

text \<open>The reply a deferred function sends: \<open>recover()\<close> returned \<open>rec\<close>.\<close>

definition reply :: "string \<Rightarrow> error option \<Rightarrow> OperationReply" where
  "reply obj rec =
     (case rec of
        Some e \<Rightarrow> \<lparr>ObjType = obj, Status = Failure, ErrorMsg = Some e\<rparr>
      | None \<Rightarrow> \<lparr>ObjType = obj, Status = Success, ErrorMsg = None\<rparr>)"

text \<open>
  Control points. A task stands at the statement it executes next; at a channel operation
  it waits for its partner.

  Requester: \<open>RqLoop ps\<close> is the head of the \<open>range\<close> loop with \<open>ps\<close> still to
  iterate, \<open>RqSend ps\<close> the send of \<open>&pair\<close>, \<open>RqReport r\<close> the deferred send of \<open>r\<close>.
\<close>

datatype rq_pc = RqStart | RqLoop "ResultPair list" | RqSend "ResultPair list"
  | RqReport OperationReply | RqDone

text \<open>
  Spawner: \<open>SpRecv\<close> is the receive from \<open>targetStream\<close>, \<open>SpLaunch\<close> the loop body
  up to the \<open>go\<close> statement, \<open>SpCount\<close> the increment and the test of
  \<open>currentRoutines\<close>, \<open>SpProbe\<close> the receive from \<open>probe\<close>, then \<open>wgp.Done()\<close>,
  \<open>wgp.Wait()\<close>, \<open>close(getAndWrite)\<close> and the deferred send.
\<close>

datatype sp_pc = SpStart | SpRecv | SpLaunch | SpCount | SpProbe | SpWgDone | SpWait | SpClose
  | SpReport OperationReply | SpDone

text \<open>
  Getter: \<open>GtStart\<close> is the call of \<open>Get\<close>, \<open>GtPost d\<close> the send of \<open>d\<close> to the
  Writer, then the deferred function: the send of the reply, \<open>wg.Done()\<close> and the send on
  \<open>spawnerProbe\<close>.
\<close>

datatype gt_pc = GtStart | GtPost ImgData | GtReport OperationReply | GtWgDone | GtProbe | GtDone

record Getter =
  url :: string
  gpc :: gt_pc

text \<open>Writer: not yet started, the receive from \<open>imgBox\<close>, the call of \<open>Write\<close>, and
  the deferred function: the send of the reply and \<open>close(w.supervisor)\<close>.\<close>

datatype wr_pc = WrIdle | WrRecv | WrWrite ImgData | WrReport OperationReply | WrClose | WrDone

text \<open>Who sent a reply: kept beside each reply \<open>main\<close> receives, for the proofs only.\<close>

datatype sender = SRequester | SSpawner | SGetter nat | SWriter

text \<open>
  The state of a run. All channels are unbuffered, so a channel holds nothing between
  steps and only its being closed is state. \<open>store\<close> holds the variables \<open>pair\<close> of the
  Requester's \<open>range\<close> loop by address, \<open>pair_addr\<close> is the address of the one of the
  current iteration (\<open>&pair\<close>), and \<open>target\<close> is the Spawner's variable \<open>pair\<close>: the
  pointer it received last, through which it reads the descriptor. \<open>wg\<close> is the WaitGroup's counter,
  \<open>currentRoutines\<close> the Spawner's, \<open>received\<close> the replies \<open>main\<close> has read.
  \<open>exited\<close>: \<open>main\<close> has returned and the process is gone. \<open>crashed\<close>: a panic
  outside any \<open>recover\<close> has killed the process.
\<close>

record sys =
  rq :: rq_pc
  store :: "nat \<Rightarrow> ResultPair"
  pair_addr :: nat
  target :: nat
  chanPair_closed :: bool
  sp :: sp_pc
  currentRoutines :: int
  wg :: int
  getAndWrite_closed :: bool
  getters :: "Getter list"
  wr :: wr_pc
  files :: fsys
  opStatus_closed :: bool
  received :: "(sender \<times> OperationReply) list"
  exited :: bool
  crashed :: bool

definition init :: "config \<Rightarrow> sys" where
  "init cfg =
     \<lparr>rq = RqStart, store = (\<lambda>a. \<lparr>Title = [], MediaUrl = []\<rparr>), pair_addr = 0, target = 0,
      chanPair_closed = False,
      sp = SpStart, currentRoutines = 0, wg = 0, getAndWrite_closed = False,
      getters = [], wr = WrIdle, files = disk cfg, opStatus_closed = False,
      received = [], exited = False, crashed = False\<rparr>"

text \<open>
  The steps. An unbuffered send and its receive happen together, as one step of both
  tasks; every other step is one task's alone.
\<close>

datatype action =
    RqStep
  | Hand
  | SpStep
  | Probe nat
  | GtStep nat
  | Post nat
  | WrStep
  | Emit sender
  | MnStep

text \<open>\<open>Requester.Main\<close> between channel operations: the call of \<open>Request\<close> (an error
  panics, and the deferred function recovers it), the assignment of the next element to
  the loop variable (a new one for this iteration, or the one of all iterations), and after
  the loop \<open>close(r.childWorker)\<close>.\<close>

definition step_rq :: "config \<Rightarrow> sys \<Rightarrow> sys option" where
  "step_rq cfg s =
     (case rq s of
        RqStart \<Rightarrow>
          (case search cfg of
             Inl err \<Rightarrow> Some (s\<lparr>rq := RqReport (reply ''Requester'' (Some err))\<rparr>)
           | Inr results \<Rightarrow> Some (s\<lparr>rq := RqLoop results\<rparr>))
      | RqLoop [] \<Rightarrow>
          Some (s\<lparr>rq := RqReport (reply ''Requester'' None), chanPair_closed := True\<rparr>)
      | RqLoop (p # ps) \<Rightarrow>
          (let a = (if per_iteration_var cfg then Suc (pair_addr s) else pair_addr s)
           in Some (s\<lparr>rq := RqSend ps, pair_addr := a, store := (store s)(a := p)\<rparr>))
      | _ \<Rightarrow> None)"

text \<open>\<open>r.childWorker <- &pair\<close> meets \<open>pair, ok = <-s.targetStream\<close>: the Spawner
  receives the address.\<close>

definition step_hand :: "sys \<Rightarrow> sys option" where
  "step_hand s =
     (case (rq s, sp s) of
        (RqSend ps, SpRecv) \<Rightarrow> Some (s\<lparr>rq := RqLoop ps, sp := SpLaunch, target := pair_addr s\<rparr>)
      | _ \<Rightarrow> None)"

text \<open>\<open>Spawner.Main\<close> between channel operations. \<open>pair.MediaUrl\<close> is read through the
  pointer when the Getter is built. A receive from the closed
  \<open>targetStream\<close> yields \<open>ok = false\<close>; \<open>wgp.Done()\<close> panics on a counter that would
  become negative, which the deferred function recovers.\<close>

definition step_sp :: "config \<Rightarrow> sys \<Rightarrow> sys option" where
  "step_sp cfg s =
     (case sp s of
        SpStart \<Rightarrow> Some (s\<lparr>sp := SpRecv, wg := wg s + 1, wr := WrRecv\<rparr>)
      | SpRecv \<Rightarrow> if chanPair_closed s then Some (s\<lparr>sp := SpWgDone\<rparr>) else None
      | SpLaunch \<Rightarrow>
          Some (s\<lparr>sp := SpCount, wg := wg s + 1,
                  getters := getters s @ [\<lparr>url = MediaUrl (store s (target s)), gpc = GtStart\<rparr>]\<rparr>)
      | SpCount \<Rightarrow>
          Some (s\<lparr>sp := (if currentRoutines s + 1 \<ge> maxRoutines (spawner cfg) then SpProbe else SpRecv),
                  currentRoutines := currentRoutines s + 1\<rparr>)
      | SpWgDone \<Rightarrow>
          if wg s - 1 < 0
          then Some (s\<lparr>sp := SpReport (reply ''Spawner''
                        (Some (RuntimeError ''sync: negative WaitGroup counter'')))\<rparr>)
          else Some (s\<lparr>sp := SpWait, wg := wg s - 1\<rparr>)
      | SpWait \<Rightarrow> if wg s = 0 then Some (s\<lparr>sp := SpClose\<rparr>) else None
      | SpClose \<Rightarrow>
          if getAndWrite_closed s
          then Some (s\<lparr>sp := SpReport (reply ''Spawner'' (Some (RuntimeError ''close of closed channel'')))\<rparr>)
          else Some (s\<lparr>sp := SpReport (reply ''Spawner'' None), getAndWrite_closed := True\<rparr>)
      | _ \<Rightarrow> None)"

text \<open>\<open>g.spawnerProbe <- true\<close> of Getter \<open>i\<close> meets \<open><-probe\<close>; the Spawner
  decrements \<open>currentRoutines\<close> and the Getter returns.\<close>

definition step_probe :: "nat \<Rightarrow> sys \<Rightarrow> sys option" where
  "step_probe i s =
     (if i < length (getters s) \<and> gpc (getters s ! i) = GtProbe \<and> sp s = SpProbe
      then Some (s\<lparr>sp := SpRecv, currentRoutines := currentRoutines s - 1,
                   getters := (getters s)[i := (getters s ! i)\<lparr>gpc := GtDone\<rparr>]\<rparr>)
      else None)"

text \<open>\<open>Getter.Get\<close>: the error of \<open>http.Get\<close>, or the body of its response.\<close>

definition Getter_Get :: "config \<Rightarrow> nat \<Rightarrow> string \<Rightarrow> error + body" where
  "Getter_Get cfg i u =
     (case http_Get cfg i u of
        Inl err \<Rightarrow> Inl err
      | Inr resp \<Rightarrow> Inr (RespBody resp))"

text \<open>\<open>Getter.Main\<close> between channel operations: the call of \<open>Get\<close> (an error panics
  and is recovered), a send on the closed \<open>imgPost\<close> (a panic, recovered), and
  \<open>wg.Done()\<close> in the deferred function, where a panic kills the process.\<close>

definition step_gt :: "config \<Rightarrow> nat \<Rightarrow> sys \<Rightarrow> sys option" where
  "step_gt cfg i s =
     (if i < length (getters s) then
        (let g = getters s ! i in
         case gpc g of
           GtStart \<Rightarrow>
             (case Getter_Get cfg i (url g) of
                Inl err \<Rightarrow>
                  Some (s\<lparr>getters := (getters s)[i := g\<lparr>gpc := GtReport (reply ''Getter'' (Some err))\<rparr>]\<rparr>)
              | Inr c \<Rightarrow>
                  Some (s\<lparr>getters := (getters s)[i := g\<lparr>gpc := GtPost \<lparr>name = Base (url g), content = c\<rparr>\<rparr>]\<rparr>))
         | GtPost d \<Rightarrow>
             if getAndWrite_closed s
             then Some (s\<lparr>getters := (getters s)[i := g\<lparr>gpc := GtReport (reply ''Getter''
                           (Some (RuntimeError ''send on closed channel'')))\<rparr>]\<rparr>)
             else None
         | GtWgDone \<Rightarrow>
             if wg s - 1 < 0 then Some (s\<lparr>crashed := True\<rparr>)
             else Some (s\<lparr>wg := wg s - 1, getters := (getters s)[i := g\<lparr>gpc := GtProbe\<rparr>]\<rparr>)
         | _ \<Rightarrow> None)
      else None)"

text \<open>\<open>g.imgPost <- &ImgData{fileName, content}\<close> of Getter \<open>i\<close> meets
  \<open><-w.imgBox\<close>; \<open>Main\<close> returns and its deferred function finds nothing to recover.\<close>

definition step_post :: "nat \<Rightarrow> sys \<Rightarrow> sys option" where
  "step_post i s =
     (if i < length (getters s) \<and> wr s = WrRecv \<and> \<not> getAndWrite_closed s then
        (case gpc (getters s ! i) of
           GtPost d \<Rightarrow>
             Some (s\<lparr>wr := WrWrite d,
                     getters := (getters s)[i := (getters s ! i)\<lparr>gpc := GtReport (reply ''Getter'' None)\<rparr>]\<rparr>)
         | _ \<Rightarrow> None)
      else None)"

text \<open>\<open>Writer.Main\<close> between channel operations: \<open>w.Write(imgData.name,
  imgData.content)\<close>, whose result is not looked at; the receive from the closed
  \<open>imgBox\<close>, which ends the loop; and \<open>close(w.supervisor)\<close>.\<close>

definition step_wr :: "config \<Rightarrow> sys \<Rightarrow> sys option" where
  "step_wr cfg s =
     (case wr s of
        WrRecv \<Rightarrow>
          if getAndWrite_closed s then Some (s\<lparr>wr := WrReport (reply ''Writer'' None)\<rparr>) else None
      | WrWrite d \<Rightarrow>
          (let (err, fs') = Writer_Write (fmt_other cfg) (files s) (outputDir (spawner cfg)) (name d) (content d)
           in Some (s\<lparr>wr := WrRecv, files := fs'\<rparr>))
      | WrClose \<Rightarrow>
          if opStatus_closed s then Some (s\<lparr>crashed := True\<rparr>)
          else Some (s\<lparr>wr := WrDone, opStatus_closed := True\<rparr>)
      | _ \<Rightarrow> None)"

text \<open>The reply a task is about to send on the supervisor channel, and the task after
  the send.\<close>

definition pending_reply :: "sender \<Rightarrow> sys \<Rightarrow> OperationReply option" where
  "pending_reply who s =
     (case who of
        SRequester \<Rightarrow> (case rq s of RqReport r \<Rightarrow> Some r | _ \<Rightarrow> None)
      | SSpawner \<Rightarrow> (case sp s of SpReport r \<Rightarrow> Some r | _ \<Rightarrow> None)
      | SGetter i \<Rightarrow>
          if i < length (getters s)
          then (case gpc (getters s ! i) of GtReport r \<Rightarrow> Some r | _ \<Rightarrow> None)
          else None
      | SWriter \<Rightarrow> (case wr s of WrReport r \<Rightarrow> Some r | _ \<Rightarrow> None))"

definition after_send :: "sender \<Rightarrow> sys \<Rightarrow> sys" where
  "after_send who s =
     (case who of
        SRequester \<Rightarrow> s\<lparr>rq := RqDone\<rparr>
      | SSpawner \<Rightarrow> s\<lparr>sp := SpDone\<rparr>
      | SGetter i \<Rightarrow> s\<lparr>getters := (getters s)[i := (getters s ! i)\<lparr>gpc := GtWgDone\<rparr>]\<rparr>
      | SWriter \<Rightarrow> s\<lparr>wr := WrClose\<rparr>)"

text \<open>A deferred send on the supervisor channel meets the receive of \<open>main\<close>'s loop. On
  the closed channel the send panics, inside the deferred function: the process dies.\<close>

definition step_emit :: "sender \<Rightarrow> sys \<Rightarrow> sys option" where
  "step_emit who s =
     (case pending_reply who s of
        None \<Rightarrow> None
      | Some r \<Rightarrow>
          if opStatus_closed s then Some (s\<lparr>crashed := True\<rparr>)
          else Some ((after_send who s)\<lparr>received := received s @ [(who, r)]\<rparr>))"

text \<open>\<open>main\<close>'s receive from the closed supervisor channel: the loop ends and \<open>main\<close>
  returns.\<close>

definition step_main :: "sys \<Rightarrow> sys option" where
  "step_main s = (if opStatus_closed s then Some (s\<lparr>exited := True\<rparr>) else None)"

text \<open>One step of the system; \<open>None\<close> when the action cannot happen in \<open>s\<close>. Nothing
  happens after the process has ended.\<close>

definition step :: "config \<Rightarrow> action \<Rightarrow> sys \<Rightarrow> sys option" where
  "step cfg a s =
     (if exited s \<or> crashed s then None
      else
        (case a of
           RqStep \<Rightarrow> step_rq cfg s
         | Hand \<Rightarrow> step_hand s
         | SpStep \<Rightarrow> step_sp cfg s
         | Probe i \<Rightarrow> step_probe i s
         | GtStep i \<Rightarrow> step_gt cfg i s
         | Post i \<Rightarrow> step_post i s
         | WrStep \<Rightarrow> step_wr cfg s
         | Emit who \<Rightarrow> step_emit who s
         | MnStep \<Rightarrow> step_main s))"

text \<open>A schedule is the list of actions of a run, in order.\<close>

fun run :: "config \<Rightarrow> action list \<Rightarrow> sys \<Rightarrow> sys option" where
  "run cfg [] s = Some s"
| "run cfg (a # as) s = (case step cfg a s of None \<Rightarrow> None | Some s' \<Rightarrow> run cfg as s')"

text \<open>No step is possible: the run has ended, or every task is blocked.\<close>

definition stuck :: "config \<Rightarrow> sys \<Rightarrow> bool" where
  "stuck cfg s = (\<forall>a. step cfg a s = None)"

section \<open>Notions for stating and proving the properties\<close>

text \<open>
  Sibling \<open>k\<close> of a path: the same directory, and the file name with \<open>_k\<close> put before
  its extension. Like every path the program builds, it is joined by \<open>filepath.Join\<close>.
\<close>

definition sibling :: "string \<Rightarrow> nat \<Rightarrow> string" where
  "sibling P k = Join (Dir P) (TrimSuffix (Base P) (Ext P) @ ''_'' @ decimal k @ Ext P)"

text \<open>A path is present when \<open>os.Stat\<close> does not answer that it does not exist.\<close>

definition present :: "fsys \<Rightarrow> string \<Rightarrow> bool" where
  "present fs path = (\<not> IsNotExist (fst (os_Stat fs path)))"

text \<open>How far a task has come: a Getter has sent its reply from phase 3 on, has called
  \<open>wg.Done()\<close> from phase 4 on, and has returned in phase 5.\<close>

fun gphase :: "gt_pc \<Rightarrow> nat" where
  "gphase GtStart = 0"
| "gphase (GtPost d) = 1"
| "gphase (GtReport r) = 2"
| "gphase GtWgDone = 3"
| "gphase GtProbe = 4"
| "gphase GtDone = 5"

text \<open>The Spawner is in its loop at rank 1 and has left it from rank 2 on; from rank 4 on
  \<open>wgp.Wait()\<close> has returned, from rank 5 on \<open>getAndWrite\<close> is closed.\<close>

fun sp_rank :: "sp_pc \<Rightarrow> nat" where
  "sp_rank SpStart = 0"
| "sp_rank SpRecv = 1"
| "sp_rank SpLaunch = 1"
| "sp_rank SpCount = 1"
| "sp_rank SpProbe = 1"
| "sp_rank SpWgDone = 2"
| "sp_rank SpWait = 3"
| "sp_rank SpClose = 4"
| "sp_rank (SpReport r) = 5"
| "sp_rank SpDone = 6"

fun wr_rank :: "wr_pc \<Rightarrow> nat" where
  "wr_rank WrIdle = 0"
| "wr_rank WrRecv = 1"
| "wr_rank (WrWrite d) = 1"
| "wr_rank (WrReport r) = 2"
| "wr_rank WrClose = 3"
| "wr_rank WrDone = 4"

fun rq_rank :: "rq_pc \<Rightarrow> nat" where
  "rq_rank RqStart = 0"
| "rq_rank (RqLoop ps) = 1"
| "rq_rank (RqSend ps) = 1"
| "rq_rank (RqReport r) = 2"
| "rq_rank RqDone = 3"

text \<open>The number of Getters whose control point satisfies \<open>P\<close>.\<close>

definition tally :: "(gt_pc \<Rightarrow> bool) \<Rightarrow> Getter list \<Rightarrow> nat" where
  "tally P gs = length (filter (\<lambda>g. P (gpc g)) gs)"

text \<open>The number of descriptors the search found.\<close>

definition ndesc :: "config \<Rightarrow> nat" where
  "ndesc cfg = (case search cfg of Inl err \<Rightarrow> 0 | Inr results \<Rightarrow> length results)"

text \<open>The descriptors the Requester has not handed over yet.\<close>

fun pend :: "config \<Rightarrow> rq_pc \<Rightarrow> nat" where
  "pend cfg RqStart = ndesc cfg"
| "pend cfg (RqLoop ps) = length ps"
| "pend cfg (RqSend ps) = Suc (length ps)"
| "pend cfg (RqReport r) = 0"
| "pend cfg RqDone = 0"

text \<open>The live Getters: launched, and not yet returned.\<close>

definition live :: "sys \<Rightarrow> nat" where
  "live s = tally (\<lambda>pc. pc \<noteq> GtDone) (getters s)"

text \<open>The Getter replies \<open>main\<close> has received.\<close>

definition getter_replies :: "sys \<Rightarrow> nat" where
  "getter_replies s = length (filter (\<lambda>e. ObjType (snd e) = ''Getter'') (received s))"

text \<open>The bound the Spawner keeps: a \<open>maxRoutines\<close> below 1 acts as 1.\<close>

definition budget :: "config \<Rightarrow> int" where
  "budget cfg = max 1 (maxRoutines (spawner cfg))"

text \<open>Every descriptor is with the Requester, with the Spawner between receive and launch,
  or has its Getter.\<close>

definition inv_count :: "config \<Rightarrow> sys \<Rightarrow> bool" where
  "inv_count cfg s \<longleftrightarrow>
     length (getters s) + (if sp s = SpLaunch then 1 else 0) + pend cfg (rq s) = ndesc cfg"

text \<open>The WaitGroup counts the Spawner's own token, until its \<open>wgp.Done()\<close>, and the
  Getters that have not called \<open>wg.Done()\<close>.\<close>

definition inv_wg :: "sys \<Rightarrow> bool" where
  "inv_wg s \<longleftrightarrow>
     wg s = (if sp_rank (sp s) = 1 \<or> sp_rank (sp s) = 2 then 1 else 0)
              + int (tally (\<lambda>pc. gphase pc < 4) (getters s))"

text \<open>\<open>currentRoutines\<close> is the number of live Getters, one behind between launch and
  increment.\<close>

definition inv_cur :: "sys \<Rightarrow> bool" where
  "inv_cur s \<longleftrightarrow> currentRoutines s = int (live s) - (if sp s = SpCount then 1 else 0)"

text \<open>\<open>currentRoutines\<close> stays below the bound, and reaches it only at the receive from
  \<open>probe\<close>.\<close>

definition inv_bound :: "config \<Rightarrow> sys \<Rightarrow> bool" where
  "inv_bound cfg s \<longleftrightarrow>
     (sp s = SpProbe \<longrightarrow> 1 \<le> currentRoutines s \<and> currentRoutines s \<le> budget cfg) \<and>
     (sp s \<noteq> SpProbe \<longrightarrow> 0 \<le> currentRoutines s \<and> currentRoutines s \<le> budget cfg - 1)"

text \<open>Every task names itself in its reply; \<open>main\<close> has one Getter reply per Getter past
  its send.\<close>

definition inv_names :: "sys \<Rightarrow> bool" where
  "inv_names s \<longleftrightarrow>
     (\<forall>r. rq s = RqReport r \<longrightarrow> ObjType r = ''Requester'') \<and>
     (\<forall>r. sp s = SpReport r \<longrightarrow> ObjType r = ''Spawner'') \<and>
     (\<forall>r. wr s = WrReport r \<longrightarrow> ObjType r = ''Writer'') \<and>
     (\<forall>i r. i < length (getters s) \<longrightarrow> gpc (getters s ! i) = GtReport r \<longrightarrow> ObjType r = ''Getter'') \<and>
     int (getter_replies s) = int (tally (\<lambda>pc. 3 \<le> gphase pc) (getters s))"

text \<open>The order in which the channels are closed.\<close>

definition inv_closed :: "sys \<Rightarrow> bool" where
  "inv_closed s \<longleftrightarrow>
     (chanPair_closed s \<longrightarrow> 2 \<le> rq_rank (rq s)) \<and>
     (2 \<le> sp_rank (sp s) \<longrightarrow> chanPair_closed s) \<and>
     (4 \<le> sp_rank (sp s) \<longrightarrow> wg s = 0) \<and>
     (getAndWrite_closed s \<longleftrightarrow> 5 \<le> sp_rank (sp s)) \<and>
     (2 \<le> wr_rank (wr s) \<longrightarrow> getAndWrite_closed s) \<and>
     (opStatus_closed s \<longleftrightarrow> wr s = WrDone) \<and>
     (wr s = WrIdle \<longleftrightarrow> sp s = SpStart)"

definition inv :: "config \<Rightarrow> sys \<Rightarrow> bool" where
  "inv cfg s \<longleftrightarrow>
     inv_count cfg s \<and> inv_wg s \<and> inv_cur s \<and> inv_bound cfg s \<and> inv_names s \<and> inv_closed s"

text \<open>The replies \<open>main\<close> has received from one task.\<close>

definition sent :: "sender \<Rightarrow> sys \<Rightarrow> nat" where
  "sent who s = length (filter (\<lambda>e. fst e = who) (received s))"

text \<open>A Getter has sent one reply once it is past its send, and none before.\<close>

definition inv_sent :: "sys \<Rightarrow> bool" where
  "inv_sent s \<longleftrightarrow>
     (\<forall>i. sent (SGetter i) s =
        (if i < length (getters s) \<and> 3 \<le> gphase (gpc (getters s ! i)) then 1 else 0))"

text \<open>The process ends only after the supervisor channel is closed; after a successful
  search the Requester closes the descriptor channel before it reports.\<close>

definition inv_end :: "config \<Rightarrow> sys \<Rightarrow> bool" where
  "inv_end cfg s \<longleftrightarrow>
     (exited s \<longrightarrow> opStatus_closed s) \<and>
     (crashed s \<longrightarrow> opStatus_closed s) \<and>
     (isl (search cfg) \<or> (2 \<le> rq_rank (rq s) \<longrightarrow> chanPair_closed s))"

text \<open>What the deferred function of the Requester recovers.\<close>

definition search_error :: "config \<Rightarrow> error option" where
  "search_error cfg = (case search cfg of Inl err \<Rightarrow> Some err | Inr results \<Rightarrow> None)"

text \<open>What the deferred function of the \<open>i\<close>-th Getter recovers.\<close>

definition get_error :: "config \<Rightarrow> nat \<Rightarrow> string \<Rightarrow> error option" where
  "get_error cfg i u = (case http_Get cfg i u of Inl err \<Rightarrow> Some err | Inr resp \<Rightarrow> None)"

text \<open>What each task is about to send.\<close>

definition inv_pending :: "config \<Rightarrow> sys \<Rightarrow> bool" where
  "inv_pending cfg s \<longleftrightarrow>
     (rq_rank (rq s) = 1 \<longrightarrow> search_error cfg = None) \<and>
     (\<forall>r. rq s = RqReport r \<longrightarrow> r = reply ''Requester'' (search_error cfg)) \<and>
     (\<forall>r. sp s = SpReport r \<longrightarrow> r = reply ''Spawner'' None) \<and>
     (\<forall>r. wr s = WrReport r \<longrightarrow> r = reply ''Writer'' None) \<and>
     (\<forall>i r. i < length (getters s) \<longrightarrow> gpc (getters s ! i) = GtReport r \<longrightarrow>
        r = reply ''Getter'' (get_error cfg i (url (getters s ! i)))) \<and>
     (\<forall>i d. i < length (getters s) \<longrightarrow> gpc (getters s ! i) = GtPost d \<longrightarrow>
        (\<exists>resp. http_Get cfg i (url (getters s ! i)) = Inr resp \<and>
                d = \<lparr>name = Base (url (getters s ! i)), content = RespBody resp\<rparr>))"

text \<open>What \<open>main\<close> has received from each task.\<close>

definition inv_received :: "config \<Rightarrow> sys \<Rightarrow> bool" where
  "inv_received cfg s \<longleftrightarrow>
     (\<forall>r. (SRequester, r) \<in> set (received s) \<longrightarrow> r = reply ''Requester'' (search_error cfg)) \<and>
     (\<forall>r. (SSpawner, r) \<in> set (received s) \<longrightarrow> r = reply ''Spawner'' None) \<and>
     (\<forall>r. (SWriter, r) \<in> set (received s) \<longrightarrow> r = reply ''Writer'' None) \<and>
     (\<forall>i r. (SGetter i, r) \<in> set (received s) \<longrightarrow>
        i < length (getters s) \<and> r = reply ''Getter'' (get_error cfg i (url (getters s ! i))))"

text \<open>A bound on the steps still to come, task by task; a descriptor not yet handed over
  counts for the steps of its hand-over, its launch and its Getter.\<close>

fun gweight :: "gt_pc \<Rightarrow> nat" where
  "gweight GtStart = 6"
| "gweight (GtPost d) = 5"
| "gweight (GtReport r) = 3"
| "gweight GtWgDone = 2"
| "gweight GtProbe = 1"
| "gweight GtDone = 0"

fun rq_weight :: "config \<Rightarrow> rq_pc \<Rightarrow> nat" where
  "rq_weight cfg RqStart = 3 + 10 * ndesc cfg"
| "rq_weight cfg (RqLoop ps) = 2 + 10 * length ps"
| "rq_weight cfg (RqSend ps) = 11 + 10 * length ps"
| "rq_weight cfg (RqReport r) = 1"
| "rq_weight cfg RqDone = 0"

fun sp_weight :: "sp_pc \<Rightarrow> nat" where
  "sp_weight SpStart = 10"
| "sp_weight SpRecv = 5"
| "sp_weight SpLaunch = 13"
| "sp_weight SpCount = 6"
| "sp_weight SpProbe = 5"
| "sp_weight SpWgDone = 4"
| "sp_weight SpWait = 3"
| "sp_weight SpClose = 2"
| "sp_weight (SpReport r) = 1"
| "sp_weight SpDone = 0"

fun wr_weight :: "wr_pc \<Rightarrow> nat" where
  "wr_weight WrIdle = 3"
| "wr_weight WrRecv = 3"
| "wr_weight (WrWrite d) = 4"
| "wr_weight (WrReport r) = 2"
| "wr_weight WrClose = 1"
| "wr_weight WrDone = 0"

definition gsum :: "Getter list \<Rightarrow> nat" where
  "gsum gs = sum_list (map (\<lambda>g. gweight (gpc g)) gs)"

definition weight :: "config \<Rightarrow> sys \<Rightarrow> nat" where
  "weight cfg s =
     (if exited s \<or> crashed s then 0
      else 1 + rq_weight cfg (rq s) + sp_weight (sp s) + wr_weight (wr s) + gsum (getters s))"

text \<open>All invariants together.\<close>

definition good :: "config \<Rightarrow> sys \<Rightarrow> bool" where
  "good cfg s \<longleftrightarrow>
     inv cfg s \<and> inv_sent s \<and> inv_end cfg s \<and> inv_pending cfg s \<and> inv_received cfg s"

text \<open>A run whose search failed: the only steps are the Requester's report and the
  Spawner's start.\<close>

definition inv_fail :: "config \<Rightarrow> sys \<Rightarrow> bool" where
  "inv_fail cfg s \<longleftrightarrow>
     \<not> chanPair_closed s \<and> \<not> getAndWrite_closed s \<and> \<not> opStatus_closed s \<and>
     \<not> exited s \<and> \<not> crashed s \<and> getters s = [] \<and>
     (rq s = RqStart \<and> received s = [] \<or>
      rq s = RqReport (reply ''Requester'' (search_error cfg)) \<and> received s = [] \<or>
      rq s = RqDone \<and> received s = [(SRequester, reply ''Requester'' (search_error cfg))]) \<and>
     (sp s = SpStart \<and> wr s = WrIdle \<or> sp s = SpRecv \<and> wr s = WrRecv)"

text \<open>The Spawner stands at its receive from \<open>probe\<close> only when \<open>currentRoutines\<close> has
  reached \<open>maxRoutines\<close>.\<close>

definition inv_gate :: "config \<Rightarrow> sys \<Rightarrow> bool" where
  "inv_gate cfg s \<longleftrightarrow> (sp s = SpProbe \<longrightarrow> maxRoutines (spawner cfg) \<le> currentRoutines s)"


text \<open>Example runs. The network answers every request with the given status and a body;
  the disk holds the directory \<open>/out\<close>.\<close>

definition net_status :: "nat \<Rightarrow> string \<Rightarrow> nat \<Rightarrow> string \<Rightarrow> error + Response" where
  "net_status code bytes i u = Inr \<lparr>StatusCode = code, RespBody = Body bytes None\<rparr>"

definition disk_out :: fsys where
  "disk_out = \<lparr>nodes = [''/out'' \<mapsto> Directory], free = 1000\<rparr>"

definition no_other :: "string \<Rightarrow> nat option \<Rightarrow> string" where
  "no_other directive arg = []"

definition pair_a :: ResultPair where
  "pair_a = \<lparr>Title = ''a'', MediaUrl = ''http://h/a.png''\<rparr>"

definition pair_b :: ResultPair where
  "pair_b = \<lparr>Title = ''b'', MediaUrl = ''http://h/b.png''\<rparr>"

definition example :: "error + ResultPair list \<Rightarrow> nat \<Rightarrow> string \<Rightarrow> int \<Rightarrow> config" where
  "example found code dir routines =
     \<lparr>search = found, http_Get = net_status code ''image'', fmt_other = no_other,
      disk = disk_out, spawner = NewSpawner dir routines, per_iteration_var = True\<rparr>"

text \<open>The same, with a network on which every request fails.\<close>

definition net_down :: "nat \<Rightarrow> string \<Rightarrow> error + Response" where
  "net_down i u = Inl (NetError ''connection refused'')"

definition example_down :: "error + ResultPair list \<Rightarrow> string \<Rightarrow> int \<Rightarrow> config" where
  "example_down found dir routines = (example found 200 dir routines)\<lparr>http_Get := net_down\<rparr>"

text \<open>The same as \<open>example\<close>, built with one loop variable for all iterations.\<close>

definition example_shared :: "error + ResultPair list \<Rightarrow> nat \<Rightarrow> string \<Rightarrow> int \<Rightarrow> config" where
  "example_shared found code dir routines =
     (example found code dir routines)\<lparr>per_iteration_var := False\<rparr>"

definition outcome :: "config \<Rightarrow> action list \<Rightarrow> sys option" where
  "outcome cfg sched = run cfg sched (init cfg)"

definition launched_urls :: "sys \<Rightarrow> string list" where
  "launched_urls s = map url (getters s)"

definition getter_pcs :: "sys \<Rightarrow> gt_pc list" where
  "getter_pcs s = map gpc (getters s)"

definition senders :: "sys \<Rightarrow> sender list" where
  "senders s = map fst (received s)"

definition written_at :: "string \<Rightarrow> sys \<Rightarrow> node option" where
  "written_at path s = nodes (files s) path"

text \<open>One descriptor, the Spawner below its budget: the Getter runs while the Spawner
  goes on, and finishes after the Spawner has left its loop.\<close>

definition sched_one :: "action list" where
  "sched_one =
     [RqStep, RqStep, SpStep, Hand, SpStep, SpStep, RqStep, SpStep, GtStep 0, Post 0, WrStep,
      Emit (SGetter 0), GtStep 0, SpStep, SpStep, SpStep, Emit SSpawner, Emit SRequester, WrStep,
      Emit SWriter, WrStep, MnStep]"

text \<open>One descriptor, the Spawner at its budget after the launch: it waits for the
  Getter's probe.\<close>

definition sched_serial :: "action list" where
  "sched_serial =
     [RqStep, RqStep, SpStep, Hand, SpStep, SpStep, RqStep, GtStep 0, Post 0, WrStep,
      Emit (SGetter 0), GtStep 0, Probe 0, SpStep, SpStep, SpStep, SpStep, Emit SSpawner,
      Emit SRequester, WrStep, Emit SWriter, WrStep, MnStep]"

text \<open>One descriptor whose fetch fails, the Spawner below its budget: up to the Getter's
  reply, and to the end of the run.\<close>

definition sched_fail_reported :: "action list" where
  "sched_fail_reported =
     [RqStep, RqStep, SpStep, Hand, SpStep, SpStep, RqStep, SpStep, GtStep 0, Emit (SGetter 0)]"

definition sched_fail :: "action list" where
  "sched_fail =
     sched_fail_reported @
     [GtStep 0, SpStep, SpStep, SpStep, Emit SSpawner, Emit SRequester, WrStep, Emit SWriter,
      WrStep, MnStep]"

text \<open>Two descriptors: after each hand-over the Requester assigns the next element to
  its loop variable before the Spawner builds the Getter.\<close>

definition sched_race :: "action list" where
  "sched_race =
     [RqStep, RqStep, SpStep, Hand, RqStep, SpStep, SpStep, Hand, SpStep, SpStep, GtStep 0,
      GtStep 1, Post 1, Emit (SGetter 1), WrStep, Post 0, WrStep, GtStep 1, Probe 1, RqStep,
      SpStep, Emit (SGetter 0), GtStep 0, SpStep, SpStep, SpStep, WrStep, Emit SRequester,
      Emit SSpawner, Emit SWriter, WrStep, MnStep]"

text \<open>No descriptor: the Writer reports and closes the supervisor channel before the
  Spawner and the Requester have sent their replies.\<close>

definition sched_early :: "action list" where
  "sched_early =
     [RqStep, RqStep, SpStep, SpStep, SpStep, SpStep, SpStep, WrStep, Emit SWriter, WrStep]"

definition disk_full :: fsys where
  "disk_full = \<lparr>nodes = (\<lambda>path. Some (File [])), free = 0\<rparr>"

definition disk_tmp :: fsys where
  "disk_tmp = \<lparr>nodes = [''/tmp'' \<mapsto> Directory, ''/tmp/foo.png'' \<mapsto> File [],
                         ''/tmp/foo_0.png'' \<mapsto> File [], ''/tmp/%dd.png'' \<mapsto> File []],
               free = 0\<rparr>"

section \<open>Properties\<close>

subsection \<open>The naming loop\<close>

lemma os_Stat_snd: "snd (os_Stat fs path) = fs"
  by (simp add: os_Stat_def split: option.splits node.splits)

lemma present_iff: "present fs path \<longleftrightarrow> nodes fs path \<noteq> None"
  by (auto simp: present_def os_Stat_def IsNotExist_def split: option.splits node.splits)

lemma vfm_loop_snd: "snd (vfm_loop other fs dir format base i) = fs"
proof (induction other fs dir format base i rule: vfm_loop.induct)
  case (1 other fs dir format base i)
  show ?case
  proof (cases "i < maxIndices")
    case False
    then show ?thesis by (simp add: vfm_loop.simps [of other fs dir format base i])
  next
    case True
    obtain err fs1 where st: "os_Stat fs (Join dir (Sprintf other format (Some i))) = (err, fs1)"
      by (cases "os_Stat fs (Join dir (Sprintf other format (Some i)))")
    with os_Stat_snd [of fs "Join dir (Sprintf other format (Some i))"] have fs1: "fs1 = fs" by simp
    show ?thesis
    proof (cases "IsNotExist err")
      case True
      with \<open>i < maxIndices\<close> st fs1 show ?thesis
        by (simp add: vfm_loop.simps [of other fs dir format base i])
    next
      case False
      with "1.IH" [OF \<open>i < maxIndices\<close> refl refl st [symmetric] refl] \<open>i < maxIndices\<close> st fs1
      show ?thesis
        by (simp add: vfm_loop.simps [of other fs dir format base i])
    qed
  qed
qed

lemma validFilenameMaker_snd: "snd (validFilenameMaker other fs writePath) = fs"
proof -
  obtain err fs0 where st: "os_Stat fs writePath = (err, fs0)"
    by (cases "os_Stat fs writePath")
  with os_Stat_snd [of fs writePath] have "fs0 = fs" by simp
  with st show ?thesis
    by (simp add: validFilenameMaker_def vfm_loop_snd Let_def)
qed

lemma Sprintf_plain:
  "CHR ''%'' \<notin> set pre \<Longrightarrow> Sprintf other (pre @ rest) arg = pre @ Sprintf other rest arg"
  by (induction pre) auto

lemma Sprintf_plain_end: "CHR ''%'' \<notin> set s \<Longrightarrow> Sprintf other s None = s"
  by (induction s) auto

lemma Sprintf_index:
  assumes "CHR ''%'' \<notin> set pre" and "CHR ''%'' \<notin> set post"
  shows "Sprintf other (pre @ ''_%d'' @ post) (Some i) = pre @ ''_'' @ decimal i @ post"
  using assms by (simp add: Sprintf_plain Sprintf_plain_end)

lemma vfm_loop_finds:
  assumes "k < maxIndices"
    and "\<And>j. j < k \<Longrightarrow> present fs (Join dir (Sprintf other format (Some j)))"
    and "\<not> present fs (Join dir (Sprintf other format (Some k)))"
    and "i \<le> k"
  shows "vfm_loop other fs dir format base i = ((Join dir (Sprintf other format (Some k)), None), fs)"
  using assms(4)
proof (induction "k - i" arbitrary: i)
  case 0
  then have "i = k" by simp
  obtain err fs1 where st: "os_Stat fs (Join dir (Sprintf other format (Some k))) = (err, fs1)"
    by (cases "os_Stat fs (Join dir (Sprintf other format (Some k)))")
  with os_Stat_snd [of fs "Join dir (Sprintf other format (Some k))"] have fs1: "fs1 = fs" by simp
  from st assms(3) have "IsNotExist err" by (simp add: present_def)
  with st fs1 assms(1) \<open>i = k\<close> show ?case
    by (simp add: vfm_loop.simps [of other fs dir format base k])
next
  case (Suc d)
  then have lt: "i < k" and le: "Suc i \<le> k" and d: "d = k - Suc i" by simp_all
  obtain err fs1 where st: "os_Stat fs (Join dir (Sprintf other format (Some i))) = (err, fs1)"
    by (cases "os_Stat fs (Join dir (Sprintf other format (Some i)))")
  with os_Stat_snd [of fs "Join dir (Sprintf other format (Some i))"] have fs1: "fs1 = fs" by simp
  from st assms(2) [OF lt] have "\<not> IsNotExist err" by (simp add: present_def)
  moreover from lt assms(1) have "i < maxIndices" by simp
  ultimately show ?case
    using st fs1 Suc.hyps(1) [OF d le]
    by (simp add: vfm_loop.simps [of other fs dir format base i])
qed

lemma vfm_loop_exhausted:
  assumes "\<And>j. i \<le> j \<Longrightarrow> j < maxIndices \<Longrightarrow> present fs (Join dir (Sprintf other format (Some j)))"
  shows "vfm_loop other fs dir format base i =
           (([], Some (FmtError (''a number (maxIndices) of files have a similar name to '' @ base))), fs)"
  using assms
proof (induction "maxIndices - i" arbitrary: i)
  case 0
  then show ?case by (simp add: vfm_loop.simps [of other fs dir format base i])
next
  case (Suc d)
  then have lt: "i < maxIndices" and d: "d = maxIndices - Suc i" by simp_all
  obtain err fs1 where st: "os_Stat fs (Join dir (Sprintf other format (Some i))) = (err, fs1)"
    by (cases "os_Stat fs (Join dir (Sprintf other format (Some i)))")
  with os_Stat_snd [of fs "Join dir (Sprintf other format (Some i))"] have fs1: "fs1 = fs" by simp
  from st Suc.prems [OF order_refl lt] have "\<not> IsNotExist err" by (simp add: present_def)
  moreover have "vfm_loop other fs dir format base (Suc i) =
           (([], Some (FmtError (''a number (maxIndices) of files have a similar name to '' @ base))), fs)"
    using Suc.hyps(1) [OF d] Suc.prems by simp
  ultimately show ?case
    using st fs1 lt by (simp add: vfm_loop.simps [of other fs dir format base i])
qed

lemma ext_scan_subset: "set (ext_scan cs acc) \<subseteq> set cs \<union> set acc"
proof (induction cs arbitrary: acc)
  case Nil
  then show ?case by simp
next
  case (Cons c cs)
  from Cons [of "c # acc"] show ?case by (auto split: if_splits)
qed

lemma Ext_subset: "set (Ext path) \<subseteq> set path"
  using ext_scan_subset [of "rev path" "[]"] by (simp add: Ext_def)

lemma Base_subset: "set (Base path) \<subseteq> set path \<union> {CHR ''.'', CHR ''/''}"
proof -
  have "set (takeWhile (\<lambda>c. \<not> IsPathSeparator c) (dropWhile IsPathSeparator (rev path))) \<subseteq> set path"
    using set_takeWhileD set_dropWhileD by fastforce
  then show ?thesis by (auto simp: Base_def Let_def)
qed

lemma TrimSuffix_subset: "set (TrimSuffix s suffix) \<subseteq> set s"
  by (auto simp: TrimSuffix_def dest: in_set_takeD)

lemma candidate_is_sibling:
  assumes "CHR ''%'' \<notin> set P"
  shows "Join (Dir P) (Sprintf other (TrimSuffix (Base P) (Ext P) @ ''_%d'' @ Ext P) (Some j))
           = sibling P j"
proof -
  have e: "CHR ''%'' \<notin> set (Ext P)" using assms Ext_subset by fastforce
  have n: "CHR ''%'' \<notin> set (TrimSuffix (Base P) (Ext P))"
    using assms TrimSuffix_subset [of "Base P" "Ext P"] Base_subset [of P] by fastforce
  show ?thesis
    unfolding sibling_def Sprintf_index [OF n e] ..
qed

lemma validFilenameMaker_present:
  assumes "present fs P"
  shows "validFilenameMaker other fs P =
           vfm_loop other fs (Dir P) (TrimSuffix (Base P) (Ext P) @ ''_%d'' @ Ext P) (Base P) 0"
proof -
  obtain err fs0 where st: "os_Stat fs P = (err, fs0)" by (cases "os_Stat fs P")
  with os_Stat_snd [of fs P] have "fs0 = fs" by simp
  moreover from st assms have "\<not> IsNotExist err" by (simp add: present_def)
  ultimately show ?thesis using st by (simp add: validFilenameMaker_def Let_def)
qed

subsection \<open>Counting Getters\<close>

lemma tally_append [simp]: "tally P (gs @ [g]) = tally P gs + (if P (gpc g) then 1 else 0)"
  by (simp add: tally_def)

lemma tally_update:
  "i < length gs \<Longrightarrow>
     tally P (gs[i := g]) + (if P (gpc (gs ! i)) then 1 else 0)
       = tally P gs + (if P (gpc g) then 1 else 0)"
proof (induction gs arbitrary: i)
  case Nil
  then show ?case by simp
next
  case (Cons x xs)
  show ?case
  proof (cases i)
    case 0
    then show ?thesis by (simp add: tally_def)
  next
    case (Suc j)
    with Cons.prems have "j < length xs" by simp
    from Cons.IH [OF this] Suc show ?thesis by (simp add: tally_def)
  qed
qed

lemma tally_Nil [simp]: "tally P [] = 0"
  by (simp add: tally_def)

lemma inv_init: "inv cfg (init cfg)"
  by (simp add: inv_def inv_count_def inv_wg_def inv_cur_def inv_bound_def inv_names_def
      inv_closed_def init_def live_def getter_replies_def budget_def)

lemma tally_upd:
  assumes "i < length gs"
  shows "int (tally P (gs[i := g])) =
           int (tally P gs) - (if P (gpc (gs ! i)) then 1 else 0) + (if P (gpc g) then 1 else 0)"
  using tally_update [OF assms, of P g] by (simp split: if_splits)

subsection \<open>The steps, case by case\<close>

lemma step_rqE:
  assumes "step_rq cfg s = Some s'"
  obtains
    (RqFail) err where "rq s = RqStart" "search cfg = Inl err"
      "s' = s\<lparr>rq := RqReport (reply ''Requester'' (Some err))\<rparr>"
  | (RqOk) results where "rq s = RqStart" "search cfg = Inr results"
      "s' = s\<lparr>rq := RqLoop results\<rparr>"
  | (RqClose) "rq s = RqLoop []"
      "s' = s\<lparr>rq := RqReport (reply ''Requester'' None), chanPair_closed := True\<rparr>"
  | (RqAssign) p ps where "rq s = RqLoop (p # ps)"
      "s' = s\<lparr>rq := RqSend ps,
               pair_addr := (if per_iteration_var cfg then Suc (pair_addr s) else pair_addr s),
               store := (store s)((if per_iteration_var cfg then Suc (pair_addr s) else pair_addr s) := p)\<rparr>"
  using assms by (auto simp: step_rq_def Let_def split: rq_pc.splits sum.splits list.splits)

lemma step_handE:
  assumes "step_hand s = Some s'"
  obtains ps where "rq s = RqSend ps" "sp s = SpRecv" "s' = s\<lparr>rq := RqLoop ps, sp := SpLaunch, target := pair_addr s\<rparr>"
  using assms by (auto simp: step_hand_def split: rq_pc.splits sp_pc.splits)

lemma step_spE:
  assumes "step_sp cfg s = Some s'"
  obtains
    (SpStart) "sp s = SpStart" "s' = s\<lparr>sp := SpRecv, wg := wg s + 1, wr := WrRecv\<rparr>"
  | (SpEnd) "sp s = SpRecv" "chanPair_closed s" "s' = s\<lparr>sp := SpWgDone\<rparr>"
  | (SpLaunch) "sp s = SpLaunch"
      "s' = s\<lparr>sp := SpCount, wg := wg s + 1,
               getters := getters s @ [\<lparr>url = MediaUrl (store s (target s)), gpc = GtStart\<rparr>]\<rparr>"
  | (SpCountFull) "sp s = SpCount" "currentRoutines s + 1 \<ge> maxRoutines (spawner cfg)"
      "s' = s\<lparr>sp := SpProbe, currentRoutines := currentRoutines s + 1\<rparr>"
  | (SpCountFree) "sp s = SpCount" "\<not> currentRoutines s + 1 \<ge> maxRoutines (spawner cfg)"
      "s' = s\<lparr>sp := SpRecv, currentRoutines := currentRoutines s + 1\<rparr>"
  | (SpWgPanic) "sp s = SpWgDone" "wg s - 1 < 0"
      "s' = s\<lparr>sp := SpReport (reply ''Spawner'' (Some (RuntimeError ''sync: negative WaitGroup counter'')))\<rparr>"
  | (SpWgDone) "sp s = SpWgDone" "\<not> wg s - 1 < 0" "s' = s\<lparr>sp := SpWait, wg := wg s - 1\<rparr>"
  | (SpWait) "sp s = SpWait" "wg s = 0" "s' = s\<lparr>sp := SpClose\<rparr>"
  | (SpClosePanic) "sp s = SpClose" "getAndWrite_closed s"
      "s' = s\<lparr>sp := SpReport (reply ''Spawner'' (Some (RuntimeError ''close of closed channel'')))\<rparr>"
  | (SpClose) "sp s = SpClose" "\<not> getAndWrite_closed s"
      "s' = s\<lparr>sp := SpReport (reply ''Spawner'' None), getAndWrite_closed := True\<rparr>"
proof (cases "sp s")
  case SpStart
  with assms show ?thesis by (intro that(1)) (auto simp: step_sp_def)
next
  case SpRecv
  with assms show ?thesis by (intro that(2)) (auto simp: step_sp_def split: if_splits)
next
  case SpLaunch
  with assms show ?thesis by (intro that(3)) (auto simp: step_sp_def)
next
  case SpCount
  show ?thesis
  proof (cases "currentRoutines s + 1 \<ge> maxRoutines (spawner cfg)")
    case True
    with SpCount assms show ?thesis by (intro that(4)) (auto simp: step_sp_def)
  next
    case False
    with SpCount assms show ?thesis by (intro that(5)) (auto simp: step_sp_def)
  qed
next
  case SpProbe
  with assms show ?thesis by (simp add: step_sp_def)
next
  case SpWgDone
  show ?thesis
  proof (cases "wg s - 1 < 0")
    case True
    with SpWgDone assms show ?thesis by (intro that(6)) (auto simp: step_sp_def)
  next
    case False
    with SpWgDone assms show ?thesis by (intro that(7)) (auto simp: step_sp_def)
  qed
next
  case SpWait
  with assms show ?thesis by (intro that(8)) (auto simp: step_sp_def split: if_splits)
next
  case SpClose
  show ?thesis
  proof (cases "getAndWrite_closed s")
    case True
    with SpClose assms show ?thesis by (intro that(9)) (auto simp: step_sp_def)
  next
    case False
    with SpClose assms show ?thesis by (intro that(10)) (auto simp: step_sp_def)
  qed
next
  case (SpReport r)
  with assms show ?thesis by (simp add: step_sp_def)
next
  case SpDone
  with assms show ?thesis by (simp add: step_sp_def)
qed

lemma step_probeE:
  assumes "step_probe i s = Some s'"
  obtains "i < length (getters s)" "gpc (getters s ! i) = GtProbe" "sp s = SpProbe"
    "s' = s\<lparr>sp := SpRecv, currentRoutines := currentRoutines s - 1,
             getters := (getters s)[i := (getters s ! i)\<lparr>gpc := GtDone\<rparr>]\<rparr>"
  using assms by (auto simp: step_probe_def split: if_splits)

lemma step_gtE:
  assumes "step_gt cfg i s = Some s'"
  obtains
    (GtFail) err where "i < length (getters s)" "gpc (getters s ! i) = GtStart"
      "Getter_Get cfg i (url (getters s ! i)) = Inl err"
      "s' = s\<lparr>getters := (getters s)[i := (getters s ! i)\<lparr>gpc := GtReport (reply ''Getter'' (Some err))\<rparr>]\<rparr>"
  | (GtOk) c where "i < length (getters s)" "gpc (getters s ! i) = GtStart"
      "Getter_Get cfg i (url (getters s ! i)) = Inr c"
      "s' = s\<lparr>getters := (getters s)[i := (getters s ! i)
               \<lparr>gpc := GtPost \<lparr>name = Base (url (getters s ! i)), content = c\<rparr>\<rparr>]\<rparr>"
  | (GtPostPanic) d where "i < length (getters s)" "gpc (getters s ! i) = GtPost d"
      "getAndWrite_closed s"
      "s' = s\<lparr>getters := (getters s)[i := (getters s ! i)
               \<lparr>gpc := GtReport (reply ''Getter'' (Some (RuntimeError ''send on closed channel'')))\<rparr>]\<rparr>"
  | (GtWgPanic) "i < length (getters s)" "gpc (getters s ! i) = GtWgDone"
      "wg s - 1 < 0" "s' = s\<lparr>crashed := True\<rparr>"
  | (GtWgDone) "i < length (getters s)" "gpc (getters s ! i) = GtWgDone"
      "\<not> wg s - 1 < 0"
      "s' = s\<lparr>wg := wg s - 1, getters := (getters s)[i := (getters s ! i)\<lparr>gpc := GtProbe\<rparr>]\<rparr>"
proof -
  from assms have len: "i < length (getters s)"
    by (simp add: step_gt_def split: if_splits)
  show ?thesis
  proof (cases "gpc (getters s ! i)")
    case GtStart
    show ?thesis
    proof (cases "Getter_Get cfg i (url (getters s ! i))")
      case (Inl err)
      with GtStart assms len show ?thesis by (intro that(1)) (auto simp: step_gt_def Let_def)
    next
      case (Inr c)
      with GtStart assms len show ?thesis by (intro that(2)) (auto simp: step_gt_def Let_def)
    qed
  next
    case (GtPost d)
    with assms len show ?thesis
      by (intro that(3)) (auto simp: step_gt_def Let_def split: if_splits)
  next
    case (GtReport r)
    with assms len show ?thesis by (simp add: step_gt_def Let_def)
  next
    case GtWgDone
    show ?thesis
    proof (cases "wg s - 1 < 0")
      case True
      with GtWgDone assms len show ?thesis by (intro that(4)) (auto simp: step_gt_def Let_def)
    next
      case False
      with GtWgDone assms len show ?thesis by (intro that(5)) (auto simp: step_gt_def Let_def)
    qed
  next
    case GtProbe
    with assms len show ?thesis by (simp add: step_gt_def Let_def)
  next
    case GtDone
    with assms len show ?thesis by (simp add: step_gt_def Let_def)
  qed
qed

lemma step_postE:
  assumes "step_post i s = Some s'"
  obtains d where "i < length (getters s)" "gpc (getters s ! i) = GtPost d"
    "wr s = WrRecv" "\<not> getAndWrite_closed s"
    "s' = s\<lparr>wr := WrWrite d,
             getters := (getters s)[i := (getters s ! i)\<lparr>gpc := GtReport (reply ''Getter'' None)\<rparr>]\<rparr>"
  using assms by (auto simp: step_post_def split: gt_pc.splits if_splits)

lemma step_wrE:
  assumes "step_wr cfg s = Some s'"
  obtains
    (WrEnd) "wr s = WrRecv" "getAndWrite_closed s" "s' = s\<lparr>wr := WrReport (reply ''Writer'' None)\<rparr>"
  | (WrWrite) d err fs' where "wr s = WrWrite d"
      "Writer_Write (fmt_other cfg) (files s) (outputDir (spawner cfg)) (name d) (content d) = (err, fs')"
      "s' = s\<lparr>wr := WrRecv, files := fs'\<rparr>"
  | (WrClosePanic) "wr s = WrClose" "opStatus_closed s" "s' = s\<lparr>crashed := True\<rparr>"
  | (WrClose) "wr s = WrClose" "\<not> opStatus_closed s" "s' = s\<lparr>wr := WrDone, opStatus_closed := True\<rparr>"
proof (cases "wr s")
  case WrIdle
  with assms show ?thesis by (simp add: step_wr_def)
next
  case WrRecv
  with assms show ?thesis by (intro that(1)) (auto simp: step_wr_def split: if_splits)
next
  case (WrWrite d)
  obtain err fs' where
    w: "Writer_Write (fmt_other cfg) (files s) (outputDir (spawner cfg)) (name d) (content d) = (err, fs')"
    by (cases "Writer_Write (fmt_other cfg) (files s) (outputDir (spawner cfg)) (name d) (content d)")
  with WrWrite assms show ?thesis by (intro that(2) [of d err fs']) (auto simp: step_wr_def)
next
  case (WrReport r)
  with assms show ?thesis by (simp add: step_wr_def)
next
  case WrClose
  show ?thesis
  proof (cases "opStatus_closed s")
    case True
    with WrClose assms show ?thesis by (intro that(3)) (auto simp: step_wr_def)
  next
    case False
    with WrClose assms show ?thesis by (intro that(4)) (auto simp: step_wr_def)
  qed
next
  case WrDone
  with assms show ?thesis by (simp add: step_wr_def)
qed

lemma step_emitE:
  assumes "step_emit who s = Some s'"
  obtains
    (EmitPanic) r where "pending_reply who s = Some r" "opStatus_closed s" "s' = s\<lparr>crashed := True\<rparr>"
  | (EmitRq) r where "who = SRequester" "rq s = RqReport r" "\<not> opStatus_closed s"
      "s' = s\<lparr>rq := RqDone, received := received s @ [(SRequester, r)]\<rparr>"
  | (EmitSp) r where "who = SSpawner" "sp s = SpReport r" "\<not> opStatus_closed s"
      "s' = s\<lparr>sp := SpDone, received := received s @ [(SSpawner, r)]\<rparr>"
  | (EmitGt) i r where "who = SGetter i" "i < length (getters s)"
      "gpc (getters s ! i) = GtReport r" "\<not> opStatus_closed s"
      "s' = s\<lparr>getters := (getters s)[i := (getters s ! i)\<lparr>gpc := GtWgDone\<rparr>],
               received := received s @ [(SGetter i, r)]\<rparr>"
  | (EmitWr) r where "who = SWriter" "wr s = WrReport r" "\<not> opStatus_closed s"
      "s' = s\<lparr>wr := WrClose, received := received s @ [(SWriter, r)]\<rparr>"
  using assms
  by (cases who)
     (auto simp: step_emit_def pending_reply_def after_send_def
           split: option.splits if_splits rq_pc.splits sp_pc.splits gt_pc.splits wr_pc.splits)

lemma step_mainE:
  assumes "step_main s = Some s'"
  obtains "opStatus_closed s" "s' = s\<lparr>exited := True\<rparr>"
  using assms by (auto simp: step_main_def split: if_splits)

lemma step_cases [consumes 1, case_names RqFail RqOk RqClose RqAssign Hand SpStart SpEnd SpLaunch
    SpCountFull SpCountFree SpWgPanic SpWgDone SpWait SpClosePanic SpClose Probe GtFail GtOk
    GtPostPanic GtWgPanic GtWgDone Post WrEnd WrWrite WrClosePanic WrClose EmitPanic EmitRq EmitSp
    EmitGt EmitWr Main]:
  assumes "step cfg a s = Some s'"
  obtains
    (RqFail) err where "a = RqStep" "rq s = RqStart" "search cfg = Inl err"
      "s' = s\<lparr>rq := RqReport (reply ''Requester'' (Some err))\<rparr>"
  | (RqOk) results where "a = RqStep" "rq s = RqStart" "search cfg = Inr results"
      "s' = s\<lparr>rq := RqLoop results\<rparr>"
  | (RqClose) "a = RqStep" "rq s = RqLoop []"
      "s' = s\<lparr>rq := RqReport (reply ''Requester'' None), chanPair_closed := True\<rparr>"
  | (RqAssign) p ps where "a = RqStep" "rq s = RqLoop (p # ps)"
      "s' = s\<lparr>rq := RqSend ps,
               pair_addr := (if per_iteration_var cfg then Suc (pair_addr s) else pair_addr s),
               store := (store s)((if per_iteration_var cfg then Suc (pair_addr s) else pair_addr s) := p)\<rparr>"
  | (Hand) ps where "a = Hand" "rq s = RqSend ps" "sp s = SpRecv"
      "s' = s\<lparr>rq := RqLoop ps, sp := SpLaunch, target := pair_addr s\<rparr>"
  | (SpStart) "a = SpStep" "sp s = SpStart"
      "s' = s\<lparr>sp := SpRecv, wg := wg s + 1, wr := WrRecv\<rparr>"
  | (SpEnd) "a = SpStep" "sp s = SpRecv" "chanPair_closed s" "s' = s\<lparr>sp := SpWgDone\<rparr>"
  | (SpLaunch) "a = SpStep" "sp s = SpLaunch"
      "s' = s\<lparr>sp := SpCount, wg := wg s + 1,
               getters := getters s @ [\<lparr>url = MediaUrl (store s (target s)), gpc = GtStart\<rparr>]\<rparr>"
  | (SpCountFull) "a = SpStep" "sp s = SpCount"
      "currentRoutines s + 1 \<ge> maxRoutines (spawner cfg)"
      "s' = s\<lparr>sp := SpProbe, currentRoutines := currentRoutines s + 1\<rparr>"
  | (SpCountFree) "a = SpStep" "sp s = SpCount"
      "\<not> currentRoutines s + 1 \<ge> maxRoutines (spawner cfg)"
      "s' = s\<lparr>sp := SpRecv, currentRoutines := currentRoutines s + 1\<rparr>"
  | (SpWgPanic) "a = SpStep" "sp s = SpWgDone" "wg s - 1 < 0"
      "s' = s\<lparr>sp := SpReport (reply ''Spawner'' (Some (RuntimeError ''sync: negative WaitGroup counter'')))\<rparr>"
  | (SpWgDone) "a = SpStep" "sp s = SpWgDone" "\<not> wg s - 1 < 0"
      "s' = s\<lparr>sp := SpWait, wg := wg s - 1\<rparr>"
  | (SpWait) "a = SpStep" "sp s = SpWait" "wg s = 0" "s' = s\<lparr>sp := SpClose\<rparr>"
  | (SpClosePanic) "a = SpStep" "sp s = SpClose" "getAndWrite_closed s"
      "s' = s\<lparr>sp := SpReport (reply ''Spawner'' (Some (RuntimeError ''close of closed channel'')))\<rparr>"
  | (SpClose) "a = SpStep" "sp s = SpClose" "\<not> getAndWrite_closed s"
      "s' = s\<lparr>sp := SpReport (reply ''Spawner'' None), getAndWrite_closed := True\<rparr>"
  | (Probe) i where "a = Probe i" "i < length (getters s)" "gpc (getters s ! i) = GtProbe"
      "sp s = SpProbe"
      "s' = s\<lparr>sp := SpRecv, currentRoutines := currentRoutines s - 1,
               getters := (getters s)[i := (getters s ! i)\<lparr>gpc := GtDone\<rparr>]\<rparr>"
  | (GtFail) i err where "a = GtStep i" "i < length (getters s)" "gpc (getters s ! i) = GtStart"
      "Getter_Get cfg i (url (getters s ! i)) = Inl err"
      "s' = s\<lparr>getters := (getters s)[i := (getters s ! i)\<lparr>gpc := GtReport (reply ''Getter'' (Some err))\<rparr>]\<rparr>"
  | (GtOk) i c where "a = GtStep i" "i < length (getters s)" "gpc (getters s ! i) = GtStart"
      "Getter_Get cfg i (url (getters s ! i)) = Inr c"
      "s' = s\<lparr>getters := (getters s)[i := (getters s ! i)
               \<lparr>gpc := GtPost \<lparr>name = Base (url (getters s ! i)), content = c\<rparr>\<rparr>]\<rparr>"
  | (GtPostPanic) i d where "a = GtStep i" "i < length (getters s)" "gpc (getters s ! i) = GtPost d"
      "getAndWrite_closed s"
      "s' = s\<lparr>getters := (getters s)[i := (getters s ! i)
               \<lparr>gpc := GtReport (reply ''Getter'' (Some (RuntimeError ''send on closed channel'')))\<rparr>]\<rparr>"
  | (GtWgPanic) i where "a = GtStep i" "i < length (getters s)" "gpc (getters s ! i) = GtWgDone"
      "wg s - 1 < 0" "s' = s\<lparr>crashed := True\<rparr>"
  | (GtWgDone) i where "a = GtStep i" "i < length (getters s)" "gpc (getters s ! i) = GtWgDone"
      "\<not> wg s - 1 < 0"
      "s' = s\<lparr>wg := wg s - 1, getters := (getters s)[i := (getters s ! i)\<lparr>gpc := GtProbe\<rparr>]\<rparr>"
  | (Post) i d where "a = Post i" "i < length (getters s)" "gpc (getters s ! i) = GtPost d"
      "wr s = WrRecv" "\<not> getAndWrite_closed s"
      "s' = s\<lparr>wr := WrWrite d,
               getters := (getters s)[i := (getters s ! i)\<lparr>gpc := GtReport (reply ''Getter'' None)\<rparr>]\<rparr>"
  | (WrEnd) "a = WrStep" "wr s = WrRecv" "getAndWrite_closed s"
      "s' = s\<lparr>wr := WrReport (reply ''Writer'' None)\<rparr>"
  | (WrWrite) d err fs' where "a = WrStep" "wr s = WrWrite d"
      "Writer_Write (fmt_other cfg) (files s) (outputDir (spawner cfg)) (name d) (content d) = (err, fs')"
      "s' = s\<lparr>wr := WrRecv, files := fs'\<rparr>"
  | (WrClosePanic) "a = WrStep" "wr s = WrClose" "opStatus_closed s" "s' = s\<lparr>crashed := True\<rparr>"
  | (WrClose) "a = WrStep" "wr s = WrClose" "\<not> opStatus_closed s"
      "s' = s\<lparr>wr := WrDone, opStatus_closed := True\<rparr>"
  | (EmitPanic) who r where "a = Emit who" "pending_reply who s = Some r" "opStatus_closed s"
      "s' = s\<lparr>crashed := True\<rparr>"
  | (EmitRq) r where "a = Emit SRequester" "rq s = RqReport r" "\<not> opStatus_closed s"
      "s' = s\<lparr>rq := RqDone, received := received s @ [(SRequester, r)]\<rparr>"
  | (EmitSp) r where "a = Emit SSpawner" "sp s = SpReport r" "\<not> opStatus_closed s"
      "s' = s\<lparr>sp := SpDone, received := received s @ [(SSpawner, r)]\<rparr>"
  | (EmitGt) i r where "a = Emit (SGetter i)" "i < length (getters s)"
      "gpc (getters s ! i) = GtReport r" "\<not> opStatus_closed s"
      "s' = s\<lparr>getters := (getters s)[i := (getters s ! i)\<lparr>gpc := GtWgDone\<rparr>],
               received := received s @ [(SGetter i, r)]\<rparr>"
  | (EmitWr) r where "a = Emit SWriter" "wr s = WrReport r" "\<not> opStatus_closed s"
      "s' = s\<lparr>wr := WrClose, received := received s @ [(SWriter, r)]\<rparr>"
  | (Main) "a = MnStep" "opStatus_closed s" "s' = s\<lparr>exited := True\<rparr>"
proof -
  from assms have alive: "\<not> exited s" "\<not> crashed s"
    by (auto simp: step_def split: if_splits)
  show ?thesis
  proof (cases a)
    case RqStep
    with assms alive have "step_rq cfg s = Some s'" by (simp add: step_def)
    then show ?thesis
    proof (cases rule: step_rqE)
      case (RqFail err)
      from RqStep RqFail show ?thesis by (rule that(1))
    next
      case (RqOk results)
      from RqStep RqOk show ?thesis by (rule that(2))
    next
      case RqClose
      from RqStep RqClose show ?thesis by (rule that(3))
    next
      case (RqAssign p ps)
      from RqStep RqAssign show ?thesis by (rule that(4))
    qed
  next
    case Hand
    with assms alive have "step_hand s = Some s'" by (simp add: step_def)
    then show ?thesis
    proof (cases rule: step_handE)
      case (1 ps)
      from Hand 1 show ?thesis by (rule that(5))
    qed
  next
    case SpStep
    with assms alive have "step_sp cfg s = Some s'" by (simp add: step_def)
    then show ?thesis
    proof (cases rule: step_spE)
      case SpStart
      from SpStep SpStart show ?thesis by (rule that(6))
    next
      case SpEnd
      from SpStep SpEnd show ?thesis by (rule that(7))
    next
      case SpLaunch
      from SpStep SpLaunch show ?thesis by (rule that(8))
    next
      case SpCountFull
      from SpStep SpCountFull show ?thesis by (rule that(9))
    next
      case SpCountFree
      from SpStep SpCountFree show ?thesis by (rule that(10))
    next
      case SpWgPanic
      from SpStep SpWgPanic show ?thesis by (rule that(11))
    next
      case SpWgDone
      from SpStep SpWgDone show ?thesis by (rule that(12))
    next
      case SpWait
      from SpStep SpWait show ?thesis by (rule that(13))
    next
      case SpClosePanic
      from SpStep SpClosePanic show ?thesis by (rule that(14))
    next
      case SpClose
      from SpStep SpClose show ?thesis by (rule that(15))
    qed
  next
    case (Probe i)
    with assms alive have "step_probe i s = Some s'" by (simp add: step_def)
    then show ?thesis
    proof (cases rule: step_probeE)
      case 1
      from Probe 1 show ?thesis by (rule that(16))
    qed
  next
    case (GtStep i)
    with assms alive have "step_gt cfg i s = Some s'" by (simp add: step_def)
    then show ?thesis
    proof (cases rule: step_gtE)
      case (GtFail err)
      from GtStep GtFail show ?thesis by (rule that(17))
    next
      case (GtOk c)
      from GtStep GtOk show ?thesis by (rule that(18))
    next
      case (GtPostPanic d)
      from GtStep GtPostPanic show ?thesis by (rule that(19))
    next
      case GtWgPanic
      from GtStep GtWgPanic show ?thesis by (rule that(20))
    next
      case GtWgDone
      from GtStep GtWgDone show ?thesis by (rule that(21))
    qed
  next
    case (Post i)
    with assms alive have "step_post i s = Some s'" by (simp add: step_def)
    then show ?thesis
    proof (cases rule: step_postE)
      case (1 d)
      from Post 1 show ?thesis by (rule that(22))
    qed
  next
    case WrStep
    with assms alive have "step_wr cfg s = Some s'" by (simp add: step_def)
    then show ?thesis
    proof (cases rule: step_wrE)
      case WrEnd
      from WrStep WrEnd show ?thesis by (rule that(23))
    next
      case (WrWrite d err fs')
      from WrStep WrWrite show ?thesis by (rule that(24))
    next
      case WrClosePanic
      from WrStep WrClosePanic show ?thesis by (rule that(25))
    next
      case WrClose
      from WrStep WrClose show ?thesis by (rule that(26))
    qed
  next
    case (Emit who)
    with assms alive have "step_emit who s = Some s'" by (simp add: step_def)
    then show ?thesis
    proof (cases rule: step_emitE)
      case (EmitPanic r)
      from Emit EmitPanic show ?thesis by (rule that(27))
    next
      case (EmitRq r)
      from Emit EmitRq show ?thesis by (intro that(28)) simp_all
    next
      case (EmitSp r)
      from Emit EmitSp show ?thesis by (intro that(29)) simp_all
    next
      case (EmitGt i r)
      from Emit EmitGt show ?thesis by (intro that(30)) simp_all
    next
      case (EmitWr r)
      from Emit EmitWr show ?thesis by (intro that(31)) simp_all
    qed
  next
    case MnStep
    with assms alive have "step_main s = Some s'" by (simp add: step_def)
    then show ?thesis
    proof (cases rule: step_mainE)
      case 1
      from MnStep 1 show ?thesis by (rule that(32))
    qed
  qed
qed

subsection \<open>Invariants of a run\<close>

lemma inv_count_step:
  assumes "step cfg a s = Some s'" and "inv_count cfg s"
  shows "inv_count cfg s'"
  using assms
  by (cases rule: step_cases) (simp_all add: inv_count_def ndesc_def)

lemma inv_wg_step:
  assumes "step cfg a s = Some s'" and "inv_wg s"
  shows "inv_wg s'"
  using assms
  by (cases rule: step_cases) (simp_all add: inv_wg_def tally_upd)

lemma inv_cur_step:
  assumes "step cfg a s = Some s'" and "inv_cur s"
  shows "inv_cur s'"
  using assms
  by (cases rule: step_cases) (simp_all add: inv_cur_def live_def tally_upd)

lemma inv_bound_step:
  assumes "step cfg a s = Some s'" and "inv_bound cfg s"
  shows "inv_bound cfg s'"
  using assms
  by (cases rule: step_cases) (simp_all add: inv_bound_def budget_def)

lemma inv_names_step:
  assumes "step cfg a s = Some s'" and "inv_names s"
  shows "inv_names s'"
  using assms
  by (cases rule: step_cases)
     (simp_all add: inv_names_def getter_replies_def tally_upd reply_def nth_list_update nth_append
        split: option.splits)

lemma inv_closed_step:
  assumes "step cfg a s = Some s'" and "inv_closed s" and "inv_wg s"
  shows "inv_closed s'"
  using assms
  by (cases rule: step_cases) (auto simp: inv_closed_def inv_wg_def tally_upd)

lemma inv_sent_step:
  assumes "step cfg a s = Some s'" and "inv_sent s"
  shows "inv_sent s'"
  using assms
  by (cases rule: step_cases)
     (auto simp: inv_sent_def sent_def nth_list_update nth_append)

lemma tally_pos: "i < length gs \<Longrightarrow> P (gpc (gs ! i)) \<Longrightarrow> 0 < tally P gs"
  unfolding tally_def by (metis (mono_tags, lifting) filter_empty_conv length_greater_0_conv nth_mem)

lemma wg_positive:
  assumes "inv_wg s" and "i < length (getters s)" and "gphase (gpc (getters s ! i)) < 4"
  shows "1 \<le> wg s"
  using assms(1) tally_pos [of i "getters s" "\<lambda>pc. gphase pc < 4", OF assms(2,3)]
  by (simp add: inv_wg_def)

lemma inv_end_step:
  assumes "step cfg a s = Some s'" and "inv_end cfg s" and "inv_wg s"
  shows "inv_end cfg s'"
  using assms
proof (cases rule: step_cases)
  case (GtWgPanic i)
  with wg_positive [OF assms(3), of i] show ?thesis by simp
qed (auto simp: inv_end_def)

subsection \<open>The replies that are sent\<close>

lemma no_post_when_closed:
  assumes "inv_wg s" and "inv_closed s" and "i < length (getters s)"
    and "gphase (gpc (getters s ! i)) < 4"
  shows "\<not> getAndWrite_closed s" and "sp_rank (sp s) < 4"
proof -
  from wg_positive [OF assms(1,3,4)] assms(2) show "sp_rank (sp s) < 4"
    by (auto simp: inv_closed_def)
  with assms(2) show "\<not> getAndWrite_closed s" by (simp add: inv_closed_def)
qed

lemma inv_pending_step:
  assumes "step cfg a s = Some s'" and "inv_pending cfg s" and "inv_wg s" and "inv_closed s"
  shows "inv_pending cfg s'"
  using assms
proof (cases rule: step_cases)
  case SpWgPanic
  with assms(3) show ?thesis by (simp add: inv_wg_def)
next
  case SpClosePanic
  with assms(4) show ?thesis by (simp add: inv_closed_def)
next
  case (GtPostPanic i d)
  with no_post_when_closed(1) [OF assms(3,4), of i] show ?thesis by simp
next
  case (GtFail i err)
  with assms(2) show ?thesis
    by (auto simp: inv_pending_def nth_list_update Getter_Get_def get_error_def split: sum.splits)
next
  case (GtOk i c)
  with assms(2) show ?thesis
    by (auto simp: inv_pending_def nth_list_update Getter_Get_def get_error_def split: sum.splits)
next
  case (Post i d)
  from assms(2) Post(2,3) obtain resp where "http_Get cfg i (url (getters s ! i)) = Inr resp"
    unfolding inv_pending_def by blast
  then have "get_error cfg i (url (getters s ! i)) = None"
    by (simp add: get_error_def)
  with Post assms(2) show ?thesis
    by (auto simp: inv_pending_def nth_list_update)
qed (auto simp: inv_pending_def nth_list_update nth_append search_error_def)

lemma inv_received_step:
  assumes "step cfg a s = Some s'" and "inv_received cfg s" and "inv_pending cfg s"
  shows "inv_received cfg s'"
  using assms
proof (cases rule: step_cases)
  case SpLaunch
  have "i < length (getters s) \<and> r = reply ''Getter'' (get_error cfg i (url (getters s ! i)))"
    if "(SGetter i, r) \<in> set (received s)" for i r
    using that assms(2) unfolding inv_received_def by blast
  with SpLaunch assms(2) show ?thesis
    by (simp add: inv_received_def nth_append less_Suc_eq)
qed (auto simp: inv_received_def inv_pending_def nth_list_update nth_append)

subsection \<open>Every run is finite\<close>

lemma gsum_append [simp]: "gsum (gs @ [g]) = gsum gs + gweight (gpc g)"
  by (simp add: gsum_def)

lemma gsum_update:
  "i < length gs \<Longrightarrow> gsum (gs[i := g]) + gweight (gpc (gs ! i)) = gsum gs + gweight (gpc g)"
proof (induction gs arbitrary: i)
  case Nil
  then show ?case by simp
next
  case (Cons x xs)
  show ?case
  proof (cases i)
    case 0
    then show ?thesis by (simp add: gsum_def)
  next
    case (Suc j)
    with Cons.prems have "j < length xs" by simp
    from Cons.IH [OF this] Suc show ?thesis by (simp add: gsum_def)
  qed
qed

lemma gsum_upd:
  assumes "i < length gs"
  shows "int (gsum (gs[i := g])) = int (gsum gs) - int (gweight (gpc (gs ! i))) + int (gweight (gpc g))"
  using gsum_update [OF assms, of g] by simp

lemma step_alive:
  assumes "step cfg a s = Some s'"
  shows "\<not> exited s" and "\<not> crashed s"
  using assms by (auto simp: step_def split: if_splits)

lemma weight_step:
  assumes "step cfg a s = Some s'"
  shows "int (weight cfg s') < int (weight cfg s)"
  using assms step_alive [OF assms]
  by (cases rule: step_cases) (simp_all add: weight_def gsum_upd ndesc_def)

lemma run_weight:
  "run cfg sched s = Some s' \<Longrightarrow> length sched + weight cfg s' \<le> weight cfg s"
proof (induction sched arbitrary: s)
  case Nil
  then show ?case by simp
next
  case (Cons a sched)
  then obtain t where st: "step cfg a s = Some t" and rest: "run cfg sched t = Some s'"
    by (auto split: option.splits)
  from weight_step [OF st] Cons.IH [OF rest] show ?case by simp
qed

lemma weight_init: "weight cfg (init cfg) = 17 + 10 * ndesc cfg"
  by (simp add: weight_def init_def gsum_def)

subsection \<open>A run with a successful search goes on until the process ends\<close>

lemma tally_zero: "(\<And>i. i < length gs \<Longrightarrow> \<not> P (gpc (gs ! i))) \<Longrightarrow> tally P gs = 0"
  unfolding tally_def by (auto simp: filter_empty_conv in_set_conv_nth)

lemma tally_pos_ex: "0 < tally P gs \<Longrightarrow> \<exists>i<length gs. P (gpc (gs ! i))"
  using tally_zero [of gs P] by fastforce

lemma step_live:
  assumes "\<not> exited s" and "\<not> crashed s"
  shows "step cfg RqStep s = step_rq cfg s"
    and "step cfg Hand s = step_hand s"
    and "step cfg SpStep s = step_sp cfg s"
    and "step cfg (Probe i) s = step_probe i s"
    and "step cfg (GtStep i) s = step_gt cfg i s"
    and "step cfg (Post i) s = step_post i s"
    and "step cfg WrStep s = step_wr cfg s"
    and "step cfg (Emit who) s = step_emit who s"
    and "step cfg MnStep s = step_main s"
  using assms by (simp_all add: step_def)

lemma progress:
  assumes inv: "inv cfg s" and fin: "inv_end cfg s" and ok: "\<not> isl (search cfg)"
    and alive: "\<not> exited s" "\<not> crashed s"
  shows "\<exists>a. step cfg a s \<noteq> None"
proof -
  note live = step_live [OF alive]
  from inv have wg: "inv_wg s" and cl: "inv_closed s" and cur: "inv_cur s"
    and bound: "inv_bound cfg s"
    by (simp_all add: inv_def)
  show ?thesis
  proof (cases "\<exists>i<length (getters s). gphase (gpc (getters s ! i)) < 4")
    case True
    then obtain i where i: "i < length (getters s)" and ph: "gphase (gpc (getters s ! i)) < 4"
      by blast
    note unclosed = no_post_when_closed [OF wg cl i ph]
    show ?thesis
    proof (cases "gpc (getters s ! i)")
      case GtStart
      with i have "step_gt cfg i s \<noteq> None"
        by (simp add: step_gt_def Let_def split: sum.splits)
      with live(5) show ?thesis by metis
    next
      case (GtPost d)
      show ?thesis
      proof (cases "wr s")
        case WrIdle
        with cl have "sp s = SpStart" by (simp add: inv_closed_def)
        then have "step_sp cfg s \<noteq> None" by (simp add: step_sp_def)
        with live(3) show ?thesis by metis
      next
        case WrRecv
        with i GtPost unclosed(1) have "step_post i s \<noteq> None" by (simp add: step_post_def)
        with live(6) show ?thesis by metis
      next
        case (WrWrite d')
        then have "step_wr cfg s \<noteq> None" by (simp add: step_wr_def split: prod.splits)
        with live(7) show ?thesis by metis
      next
        case (WrReport r)
        with cl unclosed(1) show ?thesis by (simp add: inv_closed_def)
      next
        case WrClose
        with cl unclosed(1) show ?thesis by (simp add: inv_closed_def)
      next
        case WrDone
        with cl unclosed(1) show ?thesis by (simp add: inv_closed_def)
      qed
    next
      case (GtReport r)
      with i have "step_emit (SGetter i) s \<noteq> None"
        by (simp add: step_emit_def pending_reply_def)
      with live(8) show ?thesis by metis
    next
      case GtWgDone
      with i have "step_gt cfg i s \<noteq> None" by (simp add: step_gt_def Let_def)
      with live(5) show ?thesis by metis
    next
      case GtProbe
      with ph show ?thesis by simp
    next
      case GtDone
      with ph show ?thesis by simp
    qed
  next
    case False
    then have late: "\<And>i. i < length (getters s) \<Longrightarrow> \<not> gphase (gpc (getters s ! i)) < 4"
      by blast
    have none: "tally (\<lambda>pc. gphase pc < 4) (getters s) = 0"
      by (rule tally_zero) (rule late)
    show ?thesis
    proof (cases "sp s")
      case SpStart
      then have "step_sp cfg s \<noteq> None" by (simp add: step_sp_def)
      with live(3) show ?thesis by metis
    next
      case SpRecv
      show ?thesis
      proof (cases "chanPair_closed s")
        case True
        with SpRecv have "step_sp cfg s \<noteq> None" by (simp add: step_sp_def)
        with live(3) show ?thesis by metis
      next
        case False
        show ?thesis
        proof (cases "rq s")
          case RqStart
          then have "step_rq cfg s \<noteq> None" by (simp add: step_rq_def split: sum.splits)
          with live(1) show ?thesis by metis
        next
          case (RqLoop ps)
          then have "step_rq cfg s \<noteq> None" by (simp add: step_rq_def split: list.splits)
          with live(1) show ?thesis by metis
        next
          case (RqSend ps)
          with SpRecv have "step_hand s \<noteq> None" by (simp add: step_hand_def)
          with live(2) show ?thesis by metis
        next
          case (RqReport r)
          then have "step_emit SRequester s \<noteq> None"
            by (simp add: step_emit_def pending_reply_def)
          with live(8) show ?thesis by metis
        next
          case RqDone
          with fin ok False show ?thesis by (simp add: inv_end_def)
        qed
      qed
    next
      case SpLaunch
      then have "step_sp cfg s \<noteq> None" by (simp add: step_sp_def)
      with live(3) show ?thesis by metis
    next
      case SpCount
      then have "step_sp cfg s \<noteq> None" by (simp add: step_sp_def)
      with live(3) show ?thesis by metis
    next
      case SpProbe
      with cur bound have "0 < tally (\<lambda>pc. pc \<noteq> GtDone) (getters s)"
        by (simp add: inv_cur_def inv_bound_def live_def)
      then obtain i where i: "i < length (getters s)" and nd: "gpc (getters s ! i) \<noteq> GtDone"
        using tally_pos_ex by blast
      with late [OF i] have "gpc (getters s ! i) = GtProbe"
        by (cases "gpc (getters s ! i)") simp_all
      with i SpProbe have "step_probe i s \<noteq> None" by (simp add: step_probe_def)
      with live(4) show ?thesis by metis
    next
      case SpWgDone
      then have "step_sp cfg s \<noteq> None" by (simp add: step_sp_def)
      with live(3) show ?thesis by metis
    next
      case SpWait
      with wg none have "wg s = 0" by (simp add: inv_wg_def)
      with SpWait have "step_sp cfg s \<noteq> None" by (simp add: step_sp_def)
      with live(3) show ?thesis by metis
    next
      case SpClose
      then have "step_sp cfg s \<noteq> None" by (simp add: step_sp_def)
      with live(3) show ?thesis by metis
    next
      case (SpReport r)
      then have "step_emit SSpawner s \<noteq> None"
        by (simp add: step_emit_def pending_reply_def)
      with live(8) show ?thesis by metis
    next
      case SpDone
      with cl have closed: "getAndWrite_closed s" by (simp add: inv_closed_def)
      show ?thesis
      proof (cases "wr s")
        case WrIdle
        with cl SpDone show ?thesis by (simp add: inv_closed_def)
      next
        case WrRecv
        with closed have "step_wr cfg s \<noteq> None" by (simp add: step_wr_def)
        with live(7) show ?thesis by metis
      next
        case (WrWrite d)
        then have "step_wr cfg s \<noteq> None" by (simp add: step_wr_def split: prod.splits)
        with live(7) show ?thesis by metis
      next
        case (WrReport r)
        then have "step_emit SWriter s \<noteq> None"
          by (simp add: step_emit_def pending_reply_def)
        with live(8) show ?thesis by metis
      next
        case WrClose
        then have "step_wr cfg s \<noteq> None" by (simp add: step_wr_def)
        with live(7) show ?thesis by metis
      next
        case WrDone
        with cl have "opStatus_closed s" by (simp add: inv_closed_def)
        then have "step_main s \<noteq> None" by (simp add: step_main_def)
        with live(9) show ?thesis by metis
      qed
    qed
  qed
qed

subsection \<open>What holds in every reachable state\<close>

lemma good_init: "good cfg (init cfg)"
  using inv_init [of cfg]
  by (simp add: good_def inv_sent_def sent_def inv_end_def inv_pending_def inv_received_def init_def)

lemma good_step:
  assumes "step cfg a s = Some s'" and "good cfg s"
  shows "good cfg s'"
proof -
  from assms(2) have i: "inv_count cfg s" "inv_wg s" "inv_cur s" "inv_bound cfg s" "inv_names s"
    "inv_closed s" "inv_sent s" "inv_end cfg s" "inv_pending cfg s" "inv_received cfg s"
    by (simp_all add: good_def inv_def)
  note st = assms(1)
  show ?thesis
    unfolding good_def inv_def
    using inv_count_step [OF st i(1)] inv_wg_step [OF st i(2)] inv_cur_step [OF st i(3)]
      inv_bound_step [OF st i(4)] inv_names_step [OF st i(5)] inv_closed_step [OF st i(6) i(2)]
      inv_sent_step [OF st i(7)] inv_end_step [OF st i(8) i(2)]
      inv_pending_step [OF st i(9) i(2) i(6)] inv_received_step [OF st i(10) i(9)]
    by simp
qed

lemma good_run: "run cfg sched s = Some s' \<Longrightarrow> good cfg s \<Longrightarrow> good cfg s'"
proof (induction sched arbitrary: s)
  case Nil
  then show ?case by simp
next
  case (Cons a sched)
  then obtain t where st: "step cfg a s = Some t" and rest: "run cfg sched t = Some s'"
    by (auto split: option.splits)
  from Cons.IH [OF rest good_step [OF st Cons.prems(2)]] show ?case .
qed

lemma good_reached: "run cfg sched (init cfg) = Some s \<Longrightarrow> good cfg s"
  by (rule good_run [OF _ good_init])

lemma stuck_ended:
  assumes "good cfg s" and "search cfg = Inr ds" and "stuck cfg s"
  shows "exited s \<or> crashed s"
proof (rule ccontr)
  assume "\<not> (exited s \<or> crashed s)"
  then have "\<exists>a. step cfg a s \<noteq> None"
    using progress [of cfg s] assms(1,2) by (simp add: good_def)
  with assms(3) show False by (simp add: stuck_def)
qed

lemma ended_stuck: "exited s \<or> crashed s \<Longrightarrow> stuck cfg s"
  by (auto simp: stuck_def step_def)

lemma live_bound:
  assumes "good cfg s"
  shows "int (live s) \<le> budget cfg"
proof -
  from assms have "inv_cur s" and "inv_bound cfg s" by (simp_all add: good_def inv_def)
  then show ?thesis
    by (cases "sp s = SpProbe") (auto simp: inv_cur_def inv_bound_def split: if_splits)
qed

lemma tally_le: "tally P gs \<le> length gs"
  by (simp add: tally_def)

lemma tally_all: "(\<And>i. i < length gs \<Longrightarrow> P (gpc (gs ! i))) \<Longrightarrow> tally P gs = length gs"
proof -
  assume a: "\<And>i. i < length gs \<Longrightarrow> P (gpc (gs ! i))"
  have "filter (\<lambda>g. P (gpc g)) gs = gs"
    unfolding filter_id_conv using a by (auto simp: in_set_conv_nth)
  then show ?thesis by (simp add: tally_def)
qed

lemma launched_le:
  assumes "good cfg s"
  shows "length (getters s) \<le> ndesc cfg"
  using assms by (simp add: good_def inv_def inv_count_def)

lemma closed_all_reported:
  assumes "good cfg s" and "opStatus_closed s"
  shows "length (getters s) = ndesc cfg"
    and "\<And>i. i < length (getters s) \<Longrightarrow> 4 \<le> gphase (gpc (getters s ! i))"
    and "getter_replies s = ndesc cfg"
proof -
  from assms(1) have cl: "inv_closed s" and wg: "inv_wg s" and cnt: "inv_count cfg s"
    and nm: "inv_names s"
    by (simp_all add: good_def inv_def)
  from cl assms(2) have rank: "5 \<le> sp_rank (sp s)" and cp: "chanPair_closed s"
    by (auto simp: inv_closed_def)
  from cl cp have "2 \<le> rq_rank (rq s)" by (simp add: inv_closed_def)
  then have "pend cfg (rq s) = 0" by (cases "rq s") simp_all
  moreover from rank have "sp s \<noteq> SpLaunch" by auto
  ultimately show len: "length (getters s) = ndesc cfg"
    using cnt by (simp add: inv_count_def)
  show late: "4 \<le> gphase (gpc (getters s ! i))" if "i < length (getters s)" for i
  proof (rule ccontr)
    assume "\<not> 4 \<le> gphase (gpc (getters s ! i))"
    with no_post_when_closed(2) [OF wg cl that] rank show False by simp
  qed
  have "tally (\<lambda>pc. 3 \<le> gphase pc) (getters s) = length (getters s)"
    by (rule tally_all) (use late in fastforce)
  with nm len show "getter_replies s = ndesc cfg" by (simp add: inv_names_def)
qed

lemma replies_le:
  assumes "good cfg s"
  shows "getter_replies s \<le> ndesc cfg"
proof -
  from assms have "int (getter_replies s) = int (tally (\<lambda>pc. 3 \<le> gphase pc) (getters s))"
    by (simp add: good_def inv_def inv_names_def)
  with tally_le [of "\<lambda>pc. 3 \<le> gphase pc" "getters s"] launched_le [OF assms]
  show ?thesis by simp
qed

lemma ended_closed:
  assumes "good cfg s" and "exited s \<or> crashed s"
  shows "opStatus_closed s"
  using assms by (auto simp: good_def inv_end_def)

subsection \<open>Runs after a failed search\<close>

lemma inv_fail_init: "inv_fail cfg (init cfg)"
  by (simp add: inv_fail_def init_def)

lemma inv_fail_step:
  assumes "step cfg a s = Some s'" and "inv_fail cfg s" and "search cfg = Inl err"
  shows "inv_fail cfg s'"
  using assms
  by (cases rule: step_cases) (auto simp: inv_fail_def search_error_def)

lemma inv_fail_run:
  "run cfg sched s = Some s' \<Longrightarrow> inv_fail cfg s \<Longrightarrow> search cfg = Inl err \<Longrightarrow> inv_fail cfg s'"
proof (induction sched arbitrary: s)
  case Nil
  then show ?case by simp
next
  case (Cons a sched)
  then obtain t where st: "step cfg a s = Some t" and rest: "run cfg sched t = Some s'"
    by (auto split: option.splits)
  from Cons.IH [OF rest inv_fail_step [OF st Cons.prems(2,3)] Cons.prems(3)] show ?case .
qed

lemma fail_stuck_state:
  assumes "inv_fail cfg s" and "search cfg = Inl err" and "stuck cfg s"
  shows "rq s = RqDone \<and> sp s = SpRecv \<and> wr s = WrRecv \<and>
         received s = [(SRequester, reply ''Requester'' (Some err))]"
proof -
  from assms(1) have alive: "\<not> exited s" "\<not> crashed s" by (simp_all add: inv_fail_def)
  note live = step_live [OF alive]
  from assms(3) have none: "\<And>a. step cfg a s = None" by (simp add: stuck_def)
  have "rq s \<noteq> RqStart"
  proof
    assume "rq s = RqStart"
    then have "step_rq cfg s \<noteq> None" by (simp add: step_rq_def split: sum.splits)
    with live(1) none show False by metis
  qed
  moreover have "\<And>r. rq s \<noteq> RqReport r"
  proof
    fix r assume "rq s = RqReport r"
    then have "step_emit SRequester s \<noteq> None" by (simp add: step_emit_def pending_reply_def)
    with live(8) none show False by metis
  qed
  moreover have "sp s \<noteq> SpStart"
  proof
    assume "sp s = SpStart"
    then have "step_sp cfg s \<noteq> None" by (simp add: step_sp_def)
    with live(3) none show False by metis
  qed
  ultimately show ?thesis
    using assms(1,2) by (auto simp: inv_fail_def search_error_def)
qed

lemma blocked_stuck:
  assumes "inv_fail cfg s" and "rq s = RqDone" and "sp s = SpRecv"
  shows "stuck cfg s"
proof -
  from assms(1) have alive: "\<not> exited s" "\<not> crashed s" by (simp_all add: inv_fail_def)
  note live = step_live [OF alive]
  have "step cfg a s = None" for a
    using assms
    by (cases a)
       (auto simp: live inv_fail_def step_rq_def step_hand_def step_sp_def step_probe_def step_gt_def
          step_post_def step_wr_def step_emit_def step_main_def pending_reply_def
          split: sender.splits)
  then show ?thesis by (simp add: stuck_def)
qed

subsection \<open>Replies of the Spawner and the Getters\<close>

lemma spawner_reply_success:
  assumes "good cfg s"
  shows "\<And>r. sp s = SpReport r \<Longrightarrow> r = \<lparr>ObjType = ''Spawner'', Status = Success, ErrorMsg = None\<rparr>"
    and "\<And>r. (SSpawner, r) \<in> set (received s) \<Longrightarrow>
           r = \<lparr>ObjType = ''Spawner'', Status = Success, ErrorMsg = None\<rparr>"
  using assms by (auto simp: good_def inv_pending_def inv_received_def reply_def)

lemma getter_reply_cases:
  assumes "good cfg s" and "i < length (getters s)"
  shows "\<And>r. (SGetter i, r) \<in> set (received s) \<Longrightarrow>
           r = reply ''Getter'' (get_error cfg i (url (getters s ! i)))"
    and "\<And>r. gpc (getters s ! i) = GtReport r \<Longrightarrow>
           r = reply ''Getter'' (get_error cfg i (url (getters s ! i)))"
    and "\<And>d. gpc (getters s ! i) = GtPost d \<Longrightarrow>
           \<exists>resp. http_Get cfg i (url (getters s ! i)) = Inr resp \<and>
                  d = \<lparr>name = Base (url (getters s ! i)), content = RespBody resp\<rparr>"
  using assms by (auto simp: good_def inv_pending_def inv_received_def)

lemma probe_blocked_step:
  assumes "step cfg a s = Some s'" and "2 \<le> sp_rank (sp s)"
    and "i < length (getters s)" and "gpc (getters s ! i) = GtProbe"
  shows "2 \<le> sp_rank (sp s') \<and> i < length (getters s') \<and> gpc (getters s' ! i) = GtProbe"
  using assms
  by (cases rule: step_cases) (auto simp: nth_list_update)

lemma probe_blocked_run:
  "run cfg sched s = Some s' \<Longrightarrow> 2 \<le> sp_rank (sp s) \<Longrightarrow> i < length (getters s) \<Longrightarrow>
   gpc (getters s ! i) = GtProbe \<Longrightarrow>
   2 \<le> sp_rank (sp s') \<and> i < length (getters s') \<and> gpc (getters s' ! i) = GtProbe"
proof (induction sched arbitrary: s)
  case Nil
  then show ?case by simp
next
  case (Cons a sched)
  then obtain t where st: "step cfg a s = Some t" and rest: "run cfg sched t = Some s'"
    by (auto split: option.splits)
  from probe_blocked_step [OF st Cons.prems(2,3,4)] Cons.IH [OF rest] show ?case by blast
qed

subsection \<open>The probe gate, and the descriptor of each Getter\<close>

lemma inv_gate_init: "inv_gate cfg (init cfg)"
  by (simp add: inv_gate_def init_def)

lemma inv_gate_step:
  assumes "step cfg a s = Some s'" and "inv_gate cfg s"
  shows "inv_gate cfg s'"
  using assms
  by (cases rule: step_cases) (simp_all add: inv_gate_def)

lemma inv_gate_run: "run cfg sched s = Some s' \<Longrightarrow> inv_gate cfg s \<Longrightarrow> inv_gate cfg s'"
proof (induction sched arbitrary: s)
  case Nil
  then show ?case by simp
next
  case (Cons a sched)
  then obtain t where st: "step cfg a s = Some t" and rest: "run cfg sched t = Some s'"
    by (auto split: option.splits)
  from Cons.IH [OF rest inv_gate_step [OF st Cons.prems(2)]] show ?case .
qed





lemma getter_moves:
  assumes "step cfg a s = Some s'" and "i < length (getters s)"
  shows "(gpc (getters s' ! i) = GtDone \<and> gpc (getters s ! i) \<noteq> GtDone \<longrightarrow>
            a = Probe i \<and> gpc (getters s ! i) = GtProbe \<and> sp s = SpProbe \<and>
            currentRoutines s' = currentRoutines s - 1) \<and>
         (gpc (getters s' ! i) = GtProbe \<and> gpc (getters s ! i) \<noteq> GtProbe \<longrightarrow>
            a = GtStep i \<and> gpc (getters s ! i) = GtWgDone \<and> wg s' = wg s - 1) \<and>
         (gpc (getters s' ! i) = GtWgDone \<and> gpc (getters s ! i) \<noteq> GtWgDone \<longrightarrow>
            a = Emit (SGetter i) \<and>
            (\<exists>r. gpc (getters s ! i) = GtReport r \<and> received s' = received s @ [(SGetter i, r)]))"
  using assms
  by (cases rule: step_cases) (auto simp: nth_list_update nth_append)

subsection \<open>The claims about the pipeline\<close>

lemma outcome_SomeD:
  assumes "map_option f (outcome cfg sched) = Some v"
  obtains s where "run cfg sched (init cfg) = Some s" and "f s = v"
  using assms by (auto simp: outcome_def)

lemma race_run:
  "map_option exited (outcome (example (Inr [pair_a, pair_b]) 200 ''/out'' 2) sched_race) = Some True"
  by code_simp

text \<open>
  C1. With a budget of at least 1 and N descriptors, a run never has more live Getters
  (launched and not yet returned) than the budget, never delivers more than N Getter
  replies to \<open>main\<close>, and has delivered exactly N when the supervisor channel is closed
  and when no step is possible any more; every run is finite.
\<close>

theorem bounded_fetchers:
  assumes "1 \<le> maxRoutines (spawner cfg)"
    and "search cfg = Inr ds"
    and "run cfg sched (init cfg) = Some s"
  shows "int (live s) \<le> maxRoutines (spawner cfg) \<and>
         getter_replies s \<le> length ds \<and>
         (opStatus_closed s \<longrightarrow> getter_replies s = length ds) \<and>
         (stuck cfg s \<longrightarrow> getter_replies s = length ds) \<and>
         length sched \<le> 17 + 10 * length ds"
proof -
  note g = good_reached [OF assms(3)]
  from assms(2) have n: "ndesc cfg = length ds" by (simp add: ndesc_def)
  from live_bound [OF g] assms(1) have "int (live s) \<le> maxRoutines (spawner cfg)"
    by (simp add: budget_def)
  moreover from replies_le [OF g] n have "getter_replies s \<le> length ds" by simp
  moreover have c: "getter_replies s = length ds" if "opStatus_closed s"
    using closed_all_reported(3) [OF g that] n by simp
  moreover have "getter_replies s = length ds" if "stuck cfg s"
    using c ended_closed [OF g stuck_ended [OF g assms(2) that]] by simp
  moreover from run_weight [OF assms(3)] n have "length sched \<le> 17 + 10 * length ds"
    by (simp add: weight_init)
  ultimately show ?thesis by blast
qed

theorem bounded_fetchers_witness:
  "\<exists>s. run (example (Inr [pair_a, pair_b]) 200 ''/out'' 2) sched_race
          (init (example (Inr [pair_a, pair_b]) 200 ''/out'' 2)) = Some s \<and>
       stuck (example (Inr [pair_a, pair_b]) 200 ''/out'' 2) s \<and>
       int (live s) \<le> 2 \<and> getter_replies s = 2"
proof -
  let ?cfg = "example (Inr [pair_a, pair_b]) 200 ''/out'' 2"
  from race_run obtain s where r: "run ?cfg sched_race (init ?cfg) = Some s" and e: "exited s"
    by (rule outcome_SomeD) simp
  have h1: "1 \<le> maxRoutines (spawner ?cfg)" by (simp add: example_def NewSpawner_def)
  have h2: "search ?cfg = Inr [pair_a, pair_b]" by (simp add: example_def)
  from e have st: "stuck ?cfg s" by (simp add: ended_stuck)
  from bounded_fetchers [OF h1 h2 r] st
  have "int (live s) \<le> 2 \<and> getter_replies s = 2" by (simp add: example_def NewSpawner_def)
  with r st show ?thesis by blast
qed

lemma serial_run:
  "map_option exited (outcome (example (Inr [pair_a]) 200 ''/out'' 0) sched_serial) = Some True"
  by code_simp

text \<open>
  C2, as the code has it. \<open>NewSpawner\<close> accepts any budget. With a budget of 0 or less
  the Spawner waits for a probe after every launch: it launches one Getter per descriptor,
  at most one is live at a time, and the reply the Spawner sends is Success.
\<close>

theorem nonpositive_budget_is_serial:
  assumes "b \<le> 0"
    and "spawner cfg = NewSpawner dir b"
    and "search cfg = Inr ds"
    and "run cfg sched (init cfg) = Some s"
  shows "maxRoutines (spawner cfg) = b \<and>
         live s \<le> 1 \<and>
         (\<forall>r. sp s = SpReport r \<longrightarrow> r = \<lparr>ObjType = ''Spawner'', Status = Success, ErrorMsg = None\<rparr>) \<and>
         (\<forall>r. (SSpawner, r) \<in> set (received s) \<longrightarrow>
              r = \<lparr>ObjType = ''Spawner'', Status = Success, ErrorMsg = None\<rparr>) \<and>
         (stuck cfg s \<longrightarrow> length (getters s) = length ds \<and> getter_replies s = length ds)"
proof -
  note g = good_reached [OF assms(4)]
  from assms(2) have m: "maxRoutines (spawner cfg) = b" by (simp add: NewSpawner_def)
  from assms(3) have n: "ndesc cfg = length ds" by (simp add: ndesc_def)
  from live_bound [OF g] m assms(1) have "live s \<le> 1" by (simp add: budget_def)
  moreover have "length (getters s) = length ds \<and> getter_replies s = length ds" if "stuck cfg s"
  proof -
    from ended_closed [OF g stuck_ended [OF g assms(3) that]] have "opStatus_closed s" .
    from closed_all_reported(1,3) [OF g this] n show ?thesis by simp
  qed
  ultimately show ?thesis
    using m spawner_reply_success [OF g] by blast
qed

theorem nonpositive_budget_is_serial_witness:
  "\<exists>s. run (example (Inr [pair_a]) 200 ''/out'' 0) sched_serial
          (init (example (Inr [pair_a]) 200 ''/out'' 0)) = Some s \<and>
       stuck (example (Inr [pair_a]) 200 ''/out'' 0) s \<and>
       maxRoutines (spawner (example (Inr [pair_a]) 200 ''/out'' 0)) = 0 \<and>
       live s \<le> 1 \<and> length (getters s) = 1"
proof -
  let ?cfg = "example (Inr [pair_a]) 200 ''/out'' 0"
  from serial_run obtain s where r: "run ?cfg sched_serial (init ?cfg) = Some s" and e: "exited s"
    by (rule outcome_SomeD) simp
  have h1: "(0::int) \<le> 0" by simp
  have h2: "spawner ?cfg = NewSpawner ''/out'' 0" by (simp add: example_def)
  have h3: "search ?cfg = Inr [pair_a]" by (simp add: example_def)
  from e have st: "stuck ?cfg s" by (simp add: ended_stuck)
  from nonpositive_budget_is_serial [OF h1 h2 h3 r] st
  have "maxRoutines (spawner ?cfg) = 0 \<and> live s \<le> 1 \<and> length (getters s) = 1" by simp
  with r st show ?thesis by blast
qed

text \<open>With a budget of 0 the Spawner is constructed, launches the Getter of the one
  descriptor and reports Success.\<close>

theorem zero_budget_launches:
  "maxRoutines (NewSpawner ''/out'' 0) = 0 \<and>
   map_option launched_urls (outcome (example (Inr [pair_a]) 200 ''/out'' 0) sched_serial)
     = Some [''http://h/a.png''] \<and>
   map_option received (outcome (example (Inr [pair_a]) 200 ''/out'' 0) sched_serial) =
     Some [(SGetter 0, \<lparr>ObjType = ''Getter'', Status = Success, ErrorMsg = None\<rparr>),
           (SSpawner, \<lparr>ObjType = ''Spawner'', Status = Success, ErrorMsg = None\<rparr>),
           (SRequester, \<lparr>ObjType = ''Requester'', Status = Success, ErrorMsg = None\<rparr>),
           (SWriter, \<lparr>ObjType = ''Writer'', Status = Success, ErrorMsg = None\<rparr>)]"
  by code_simp

lemma not_found_run:
  "map_option launched_urls (outcome (example (Inr [pair_a]) 404 ''/out'' 1) sched_serial)
     = Some [''http://h/a.png''] \<and>
   map_option received (outcome (example (Inr [pair_a]) 404 ''/out'' 1) sched_serial) =
     Some [(SGetter 0, \<lparr>ObjType = ''Getter'', Status = Success, ErrorMsg = None\<rparr>),
           (SSpawner, \<lparr>ObjType = ''Spawner'', Status = Success, ErrorMsg = None\<rparr>),
           (SRequester, \<lparr>ObjType = ''Requester'', Status = Success, ErrorMsg = None\<rparr>),
           (SWriter, \<lparr>ObjType = ''Writer'', Status = Success, ErrorMsg = None\<rparr>)]"
  by code_simp

text \<open>
  C3, as the code has it. A Getter looks only at the error of \<open>http.Get\<close>. Whatever the
  status of the response, \<open>Get\<close> returns its body, the Getter goes on to send it to the
  Writer, and its reply is Success. Only when \<open>http.Get\<close> returns an error does the Getter
  send nothing to the Writer and reply Failure with that error.
\<close>

theorem getter_fails_on_transport_error_only:
  assumes "run cfg sched (init cfg) = Some s"
    and "i < length (getters s)"
  shows "(\<forall>resp. http_Get cfg i (url (getters s ! i)) = Inr resp \<longrightarrow>
            Getter_Get cfg i (url (getters s ! i)) = Inr (RespBody resp) \<and>
            (gpc (getters s ! i) = GtStart \<and> \<not> exited s \<and> \<not> crashed s \<longrightarrow>
               step cfg (GtStep i) s =
                 Some (s\<lparr>getters := (getters s)[i := (getters s ! i)
                   \<lparr>gpc := GtPost \<lparr>name = Base (url (getters s ! i)), content = RespBody resp\<rparr>\<rparr>]\<rparr>)) \<and>
            (\<forall>r. gpc (getters s ! i) = GtReport r \<or> (SGetter i, r) \<in> set (received s) \<longrightarrow>
               r = \<lparr>ObjType = ''Getter'', Status = Success, ErrorMsg = None\<rparr>)) \<and>
         (\<forall>err. http_Get cfg i (url (getters s ! i)) = Inl err \<longrightarrow>
            Getter_Get cfg i (url (getters s ! i)) = Inl err \<and>
            (\<forall>d. gpc (getters s ! i) \<noteq> GtPost d) \<and>
            (\<forall>r. gpc (getters s ! i) = GtReport r \<or> (SGetter i, r) \<in> set (received s) \<longrightarrow>
               r = \<lparr>ObjType = ''Getter'', Status = Failure, ErrorMsg = Some err\<rparr>))"
proof -
  note g = good_reached [OF assms(1)]
  note c = getter_reply_cases [OF g assms(2)]
  have ok: "Getter_Get cfg i (url (getters s ! i)) = Inr (RespBody resp) \<and>
            (gpc (getters s ! i) = GtStart \<and> \<not> exited s \<and> \<not> crashed s \<longrightarrow>
               step cfg (GtStep i) s =
                 Some (s\<lparr>getters := (getters s)[i := (getters s ! i)
                   \<lparr>gpc := GtPost \<lparr>name = Base (url (getters s ! i)), content = RespBody resp\<rparr>\<rparr>]\<rparr>)) \<and>
            (\<forall>r. gpc (getters s ! i) = GtReport r \<or> (SGetter i, r) \<in> set (received s) \<longrightarrow>
               r = \<lparr>ObjType = ''Getter'', Status = Success, ErrorMsg = None\<rparr>)"
    if h: "http_Get cfg i (url (getters s ! i)) = Inr resp" for resp
  proof -
    from h have gg: "Getter_Get cfg i (url (getters s ! i)) = Inr (RespBody resp)"
      by (simp add: Getter_Get_def)
    from h have ge: "get_error cfg i (url (getters s ! i)) = None" by (simp add: get_error_def)
    have "step cfg (GtStep i) s =
                 Some (s\<lparr>getters := (getters s)[i := (getters s ! i)
                   \<lparr>gpc := GtPost \<lparr>name = Base (url (getters s ! i)), content = RespBody resp\<rparr>\<rparr>]\<rparr>)"
      if "gpc (getters s ! i) = GtStart" "\<not> exited s" "\<not> crashed s"
      using that gg assms(2) by (simp add: step_def step_gt_def Let_def)
    moreover have "r = \<lparr>ObjType = ''Getter'', Status = Success, ErrorMsg = None\<rparr>"
      if "gpc (getters s ! i) = GtReport r \<or> (SGetter i, r) \<in> set (received s)" for r
      using that c(1,2) [of r] ge by (auto simp: reply_def)
    ultimately show ?thesis using gg by blast
  qed
  have bad: "Getter_Get cfg i (url (getters s ! i)) = Inl err \<and>
            (\<forall>d. gpc (getters s ! i) \<noteq> GtPost d) \<and>
            (\<forall>r. gpc (getters s ! i) = GtReport r \<or> (SGetter i, r) \<in> set (received s) \<longrightarrow>
               r = \<lparr>ObjType = ''Getter'', Status = Failure, ErrorMsg = Some err\<rparr>)"
    if h: "http_Get cfg i (url (getters s ! i)) = Inl err" for err
  proof -
    from h have gg: "Getter_Get cfg i (url (getters s ! i)) = Inl err"
      by (simp add: Getter_Get_def)
    from h have ge: "get_error cfg i (url (getters s ! i)) = Some err" by (simp add: get_error_def)
    have "gpc (getters s ! i) \<noteq> GtPost d" for d
      using c(3) [of d] h by auto
    moreover have "r = \<lparr>ObjType = ''Getter'', Status = Failure, ErrorMsg = Some err\<rparr>"
      if "gpc (getters s ! i) = GtReport r \<or> (SGetter i, r) \<in> set (received s)" for r
      using that c(1,2) [of r] ge by (auto simp: reply_def)
    ultimately show ?thesis using gg by blast
  qed
  from ok bad show ?thesis by blast
qed

theorem getter_fails_on_transport_error_only_witness:
  "\<exists>s. run (example (Inr [pair_a]) 404 ''/out'' 1) sched_serial
          (init (example (Inr [pair_a]) 404 ''/out'' 1)) = Some s \<and>
       0 < length (getters s) \<and>
       http_Get (example (Inr [pair_a]) 404 ''/out'' 1) 0 (url (getters s ! 0))
         = Inr \<lparr>StatusCode = 404, RespBody = Body ''image'' None\<rparr> \<and>
       (SGetter 0, \<lparr>ObjType = ''Getter'', Status = Success, ErrorMsg = None\<rparr>) \<in> set (received s) \<and>
       Getter_Get (example (Inr [pair_a]) 404 ''/out'' 1) 0 (url (getters s ! 0))
         = Inr (Body ''image'' None)"
proof -
  let ?cfg = "example (Inr [pair_a]) 404 ''/out'' 1"
  from not_found_run [THEN conjunct1] obtain s
    where r: "run ?cfg sched_serial (init ?cfg) = Some s"
      and u: "launched_urls s = [''http://h/a.png'']"
    by (rule outcome_SomeD)
  from not_found_run [THEN conjunct2] r
  have rec: "(SGetter 0, \<lparr>ObjType = ''Getter'', Status = Success, ErrorMsg = None\<rparr>) \<in> set (received s)"
    by (simp add: outcome_def)
  from u have len: "0 < length (getters s)" by (auto simp: launched_urls_def)
  have h: "http_Get ?cfg 0 (url (getters s ! 0)) = Inr \<lparr>StatusCode = 404, RespBody = Body ''image'' None\<rparr>"
    by (simp add: example_def net_status_def)
  from getter_fails_on_transport_error_only [OF r len] h
  have "Getter_Get ?cfg 0 (url (getters s ! 0)) = Inr (Body ''image'' None)" by simp
  with r len h rec show ?thesis by blast
qed

text \<open>A response with status 404: the Getter replies Success and the Writer writes the
  body of the response to the file.\<close>

theorem not_found_is_written:
  "http_Get (example (Inr [pair_a]) 404 ''/out'' 1) 0 ''http://h/a.png''
      = Inr \<lparr>StatusCode = 404, RespBody = Body ''image'' None\<rparr> \<and>
   map_option received (outcome (example (Inr [pair_a]) 404 ''/out'' 1) sched_serial) =
     Some [(SGetter 0, \<lparr>ObjType = ''Getter'', Status = Success, ErrorMsg = None\<rparr>),
           (SSpawner, \<lparr>ObjType = ''Spawner'', Status = Success, ErrorMsg = None\<rparr>),
           (SRequester, \<lparr>ObjType = ''Requester'', Status = Success, ErrorMsg = None\<rparr>),
           (SWriter, \<lparr>ObjType = ''Writer'', Status = Success, ErrorMsg = None\<rparr>)] \<and>
   map_option (written_at ''/out/a.png'') (outcome (example (Inr [pair_a]) 404 ''/out'' 1) sched_serial)
     = Some (Some (File ''image''))"
  by code_simp

text \<open>
  C4. The Writer does not look at what \<open>Write\<close> returns. Here the output directory does
  not exist: \<open>Write\<close> returns the error of \<open>os.Create\<close>, no file is written, and the
  Writer's reply is Success with no error.
\<close>

theorem write_error_is_dropped:
  "fst (Writer_Write no_other disk_out ''/missing'' ''a.png'' (Body ''image'' None))
     = Some (OsError ENOENT) \<and>
   map_option received (outcome (example (Inr [pair_a]) 200 ''/missing'' 2) sched_one) =
     Some [(SGetter 0, \<lparr>ObjType = ''Getter'', Status = Success, ErrorMsg = None\<rparr>),
           (SSpawner, \<lparr>ObjType = ''Spawner'', Status = Success, ErrorMsg = None\<rparr>),
           (SRequester, \<lparr>ObjType = ''Requester'', Status = Success, ErrorMsg = None\<rparr>),
           (SWriter, \<lparr>ObjType = ''Writer'', Status = Success, ErrorMsg = None\<rparr>)] \<and>
   map_option (written_at ''/missing/a.png'')
     (outcome (example (Inr [pair_a]) 200 ''/missing'' 2) sched_one) = Some None"
  by code_simp

text \<open>
  C5. With no descriptor, the Writer can send its reply and close the supervisor channel
  while the Spawner and the Requester still stand before their own sends. From there the
  Spawner's send panics on the closed channel and the process dies, or \<open>main\<close> returns;
  either way \<open>main\<close> has seen the Writer's reply only.
\<close>

theorem writer_closes_before_spawner_sends:
  "map_option opStatus_closed (outcome (example (Inr []) 200 ''/out'' 1) sched_early) = Some True \<and>
   map_option senders (outcome (example (Inr []) 200 ''/out'' 1) sched_early) = Some [SWriter] \<and>
   map_option sp (outcome (example (Inr []) 200 ''/out'' 1) sched_early)
     = Some (SpReport \<lparr>ObjType = ''Spawner'', Status = Success, ErrorMsg = None\<rparr>) \<and>
   map_option rq (outcome (example (Inr []) 200 ''/out'' 1) sched_early)
     = Some (RqReport \<lparr>ObjType = ''Requester'', Status = Success, ErrorMsg = None\<rparr>) \<and>
   map_option crashed (outcome (example (Inr []) 200 ''/out'' 1) (sched_early @ [Emit SSpawner]))
     = Some True \<and>
   map_option senders (outcome (example (Inr []) 200 ''/out'' 1) (sched_early @ [Emit SSpawner]))
     = Some [SWriter] \<and>
   map_option exited (outcome (example (Inr []) 200 ''/out'' 1) (sched_early @ [MnStep]))
     = Some True"
  by code_simp

lemma one_run:
  "map_option exited (outcome (example (Inr [pair_a]) 200 ''/out'' 2) sched_one) = Some True \<and>
   map_option launched_urls (outcome (example (Inr [pair_a]) 200 ''/out'' 2) sched_one)
     = Some [''http://h/a.png'']"
  by code_simp

lemma down_run:
  "map_option exited (outcome (example_down (Inr [pair_a]) ''/out'' 2) sched_fail) = Some True \<and>
   map_option getter_pcs (outcome (example_down (Inr [pair_a]) ''/out'' 2) sched_fail)
     = Some [GtProbe]"
  by code_simp

lemma down_reported:
  "map_option getter_pcs (outcome (example_down (Inr [pair_a]) ''/out'' 2) sched_fail_reported)
     = Some [GtWgDone] \<and>
   map_option exited (outcome (example_down (Inr [pair_a]) ''/out'' 2) sched_fail_reported)
     = Some False \<and>
   map_option crashed (outcome (example_down (Inr [pair_a]) ''/out'' 2) sched_fail_reported)
     = Some False"
  by code_simp

text \<open>
  C6, as the code has it. Every launched Getter sends one reply, whether it succeeded or
  failed: never more than one, and exactly one by the time no step is possible any more.
  On both paths the reply is followed by \<open>wg.Done()\<close> and then by the send on
  \<open>spawnerProbe\<close>, and a Getter has returned only through that send: the reply it stands
  before is the one of its fetch, Success or Failure, and is sent as soon as \<open>main\<close>
  receives; from there its next step is \<open>wg.Done()\<close>, which takes one off the WaitGroup
  and leaves it at the probe send; it comes to each of these points, and returns, by no
  other step. The probe send happens only while the Spawner stands at its receive from
  \<open>probe\<close>, where \<open>currentRoutines\<close> has reached \<open>maxRoutines\<close>. Once the Spawner has
  left its loop, a Getter at that send stays there in every continuation of the run.
\<close>

theorem getter_reports_once:
  assumes "search cfg = Inr ds"
    and "run cfg sched (init cfg) = Some s"
    and "i < length (getters s)"
  shows "sent (SGetter i) s \<le> 1 \<and>
         (sent (SGetter i) s = 1 \<longleftrightarrow>
            gpc (getters s ! i) = GtWgDone \<or> gpc (getters s ! i) = GtProbe \<or> gpc (getters s ! i) = GtDone) \<and>
         (stuck cfg s \<longrightarrow>
            sent (SGetter i) s = 1 \<and> (gpc (getters s ! i) = GtProbe \<or> gpc (getters s ! i) = GtDone)) \<and>
         (\<forall>r. gpc (getters s ! i) = GtReport r \<longrightarrow>
            r = reply ''Getter'' (get_error cfg i (url (getters s ! i))) \<and>
            (\<not> exited s \<and> \<not> crashed s \<and> \<not> opStatus_closed s \<longrightarrow>
               step cfg (Emit (SGetter i)) s =
                 Some (s\<lparr>getters := (getters s)[i := (getters s ! i)\<lparr>gpc := GtWgDone\<rparr>],
                         received := received s @ [(SGetter i, r)]\<rparr>))) \<and>
         (gpc (getters s ! i) = GtWgDone \<and> \<not> exited s \<and> \<not> crashed s \<longrightarrow>
            step cfg (GtStep i) s =
              Some (s\<lparr>wg := wg s - 1, getters := (getters s)[i := (getters s ! i)\<lparr>gpc := GtProbe\<rparr>]\<rparr>)) \<and>
         (gpc (getters s ! i) = GtProbe \<and> \<not> exited s \<and> \<not> crashed s \<longrightarrow>
            (sp s = SpProbe \<longrightarrow>
               maxRoutines (spawner cfg) \<le> currentRoutines s \<and>
               step cfg (Probe i) s =
                 Some (s\<lparr>sp := SpRecv, currentRoutines := currentRoutines s - 1,
                         getters := (getters s)[i := (getters s ! i)\<lparr>gpc := GtDone\<rparr>]\<rparr>)) \<and>
            (sp s \<noteq> SpProbe \<longrightarrow> step cfg (Probe i) s = None)) \<and>
         (\<forall>a s'. step cfg a s = Some s' \<longrightarrow>
            (gpc (getters s' ! i) = GtDone \<and> gpc (getters s ! i) \<noteq> GtDone \<longrightarrow>
               a = Probe i \<and> gpc (getters s ! i) = GtProbe \<and> sp s = SpProbe \<and>
               maxRoutines (spawner cfg) \<le> currentRoutines s \<and>
               currentRoutines s' = currentRoutines s - 1) \<and>
            (gpc (getters s' ! i) = GtProbe \<and> gpc (getters s ! i) \<noteq> GtProbe \<longrightarrow>
               a = GtStep i \<and> gpc (getters s ! i) = GtWgDone \<and> wg s' = wg s - 1) \<and>
            (gpc (getters s' ! i) = GtWgDone \<and> gpc (getters s ! i) \<noteq> GtWgDone \<longrightarrow>
               a = Emit (SGetter i) \<and>
               (\<exists>r. gpc (getters s ! i) = GtReport r \<and> received s' = received s @ [(SGetter i, r)]))) \<and>
         (gpc (getters s ! i) = GtProbe \<and> 2 \<le> sp_rank (sp s) \<longrightarrow>
            (\<forall>sched' s'. run cfg sched' s = Some s' \<longrightarrow> gpc (getters s' ! i) = GtProbe))"
proof -
  note g = good_reached [OF assms(2)]
  from inv_gate_run [OF assms(2) inv_gate_init]
  have gate: "sp s = SpProbe \<longrightarrow> maxRoutines (spawner cfg) \<le> currentRoutines s"
    by (simp add: inv_gate_def)
  from g have "inv_sent s" and wgi: "inv_wg s" by (simp_all add: good_def inv_def)
  then have snt: "sent (SGetter i) s = (if 3 \<le> gphase (gpc (getters s ! i)) then 1 else 0)"
    using assms(3) by (simp add: inv_sent_def)
  have ph: "3 \<le> gphase (gpc (getters s ! i)) \<longleftrightarrow>
      gpc (getters s ! i) = GtWgDone \<or> gpc (getters s ! i) = GtProbe \<or> gpc (getters s ! i) = GtDone"
    by (cases "gpc (getters s ! i)") simp_all
  have c1: "sent (SGetter i) s \<le> 1 \<and>
         (sent (SGetter i) s = 1 \<longleftrightarrow>
            gpc (getters s ! i) = GtWgDone \<or> gpc (getters s ! i) = GtProbe \<or> gpc (getters s ! i) = GtDone)"
    using snt ph by auto
  have c2: "sent (SGetter i) s = 1 \<and> (gpc (getters s ! i) = GtProbe \<or> gpc (getters s ! i) = GtDone)"
    if "stuck cfg s"
  proof -
    from ended_closed [OF g stuck_ended [OF g assms(1) that]] have "opStatus_closed s" .
    from closed_all_reported(2) [OF g this assms(3)] have "4 \<le> gphase (gpc (getters s ! i))" .
    then show ?thesis using snt by (cases "gpc (getters s ! i)") simp_all
  qed
  have c3: "r = reply ''Getter'' (get_error cfg i (url (getters s ! i))) \<and>
            (\<not> exited s \<and> \<not> crashed s \<and> \<not> opStatus_closed s \<longrightarrow>
               step cfg (Emit (SGetter i)) s =
                 Some (s\<lparr>getters := (getters s)[i := (getters s ! i)\<lparr>gpc := GtWgDone\<rparr>],
                         received := received s @ [(SGetter i, r)]\<rparr>))"
    if "gpc (getters s ! i) = GtReport r" for r
    using that assms(3) getter_reply_cases(2) [OF g assms(3) that]
    by (simp add: step_def step_emit_def pending_reply_def after_send_def)
  have c4: "step cfg (GtStep i) s =
              Some (s\<lparr>wg := wg s - 1, getters := (getters s)[i := (getters s ! i)\<lparr>gpc := GtProbe\<rparr>]\<rparr>)"
    if "gpc (getters s ! i) = GtWgDone" "\<not> exited s" "\<not> crashed s"
    using that assms(3) wg_positive [OF wgi assms(3)]
    by (simp add: step_def step_gt_def Let_def)
  have c5: "(sp s = SpProbe \<longrightarrow>
               maxRoutines (spawner cfg) \<le> currentRoutines s \<and>
               step cfg (Probe i) s =
                 Some (s\<lparr>sp := SpRecv, currentRoutines := currentRoutines s - 1,
                         getters := (getters s)[i := (getters s ! i)\<lparr>gpc := GtDone\<rparr>]\<rparr>)) \<and>
            (sp s \<noteq> SpProbe \<longrightarrow> step cfg (Probe i) s = None)"
    if "gpc (getters s ! i) = GtProbe" "\<not> exited s" "\<not> crashed s"
    using that assms(3) gate by (simp add: step_def step_probe_def)
  have c6: "(gpc (getters s' ! i) = GtDone \<and> gpc (getters s ! i) \<noteq> GtDone \<longrightarrow>
               a = Probe i \<and> gpc (getters s ! i) = GtProbe \<and> sp s = SpProbe \<and>
               maxRoutines (spawner cfg) \<le> currentRoutines s \<and>
               currentRoutines s' = currentRoutines s - 1) \<and>
            (gpc (getters s' ! i) = GtProbe \<and> gpc (getters s ! i) \<noteq> GtProbe \<longrightarrow>
               a = GtStep i \<and> gpc (getters s ! i) = GtWgDone \<and> wg s' = wg s - 1) \<and>
            (gpc (getters s' ! i) = GtWgDone \<and> gpc (getters s ! i) \<noteq> GtWgDone \<longrightarrow>
               a = Emit (SGetter i) \<and>
               (\<exists>r. gpc (getters s ! i) = GtReport r \<and> received s' = received s @ [(SGetter i, r)]))"
    if "step cfg a s = Some s'" for a s'
    using getter_moves [OF that assms(3)] gate by blast
  have c7: "gpc (getters s' ! i) = GtProbe"
    if "gpc (getters s ! i) = GtProbe" "2 \<le> sp_rank (sp s)" "run cfg sched' s = Some s'" for sched' s'
    using probe_blocked_run [OF that(3,2) assms(3) that(1)] by simp
  from c1 c2 c3 c4 c5 c6 c7 show ?thesis by blast
qed

theorem getter_reports_once_witness:
  "(\<exists>s. run (example_down (Inr [pair_a]) ''/out'' 2) sched_fail
           (init (example_down (Inr [pair_a]) ''/out'' 2)) = Some s \<and>
        0 < length (getters s) \<and> stuck (example_down (Inr [pair_a]) ''/out'' 2) s \<and>
        sent (SGetter 0) s = 1 \<and> gpc (getters s ! 0) = GtProbe) \<and>
   (\<exists>s. run (example_down (Inr [pair_a]) ''/out'' 2) sched_fail_reported
           (init (example_down (Inr [pair_a]) ''/out'' 2)) = Some s \<and>
        0 < length (getters s) \<and> gpc (getters s ! 0) = GtWgDone \<and>
        step (example_down (Inr [pair_a]) ''/out'' 2) (GtStep 0) s =
          Some (s\<lparr>wg := wg s - 1, getters := (getters s)[0 := (getters s ! 0)\<lparr>gpc := GtProbe\<rparr>]\<rparr>)) \<and>
   (\<exists>s. run (example (Inr [pair_a]) 200 ''/out'' 2) sched_one
           (init (example (Inr [pair_a]) 200 ''/out'' 2)) = Some s \<and>
        0 < length (getters s) \<and> stuck (example (Inr [pair_a]) 200 ''/out'' 2) s \<and>
        sent (SGetter 0) s = 1)"
proof -
  let ?down = "example_down (Inr [pair_a]) ''/out'' 2"
  let ?cfg = "example (Inr [pair_a]) 200 ''/out'' 2"
  have hd: "search ?down = Inr [pair_a]" by (simp add: example_down_def example_def)
  have h: "search ?cfg = Inr [pair_a]" by (simp add: example_def)
  have first: "\<exists>s. run ?down sched_fail (init ?down) = Some s \<and> 0 < length (getters s) \<and>
      stuck ?down s \<and> sent (SGetter 0) s = 1 \<and> gpc (getters s ! 0) = GtProbe"
  proof -
    from down_run [THEN conjunct1] obtain s
      where r: "run ?down sched_fail (init ?down) = Some s" and e: "exited s"
      by (rule outcome_SomeD) simp
    from down_run [THEN conjunct2] r have p: "getter_pcs s = [GtProbe]" by (simp add: outcome_def)
    then have len: "0 < length (getters s)" by (auto simp: getter_pcs_def)
    from p have pc: "gpc (getters s ! 0) = GtProbe"
      by (cases "getters s") (auto simp: getter_pcs_def)
    from e have st: "stuck ?down s" by (simp add: ended_stuck)
    from getter_reports_once [OF hd r len] st have "sent (SGetter 0) s = 1" by simp
    with r len st pc show ?thesis by blast
  qed
  have second: "\<exists>s. run ?down sched_fail_reported (init ?down) = Some s \<and> 0 < length (getters s) \<and>
      gpc (getters s ! 0) = GtWgDone \<and>
      step ?down (GtStep 0) s =
        Some (s\<lparr>wg := wg s - 1, getters := (getters s)[0 := (getters s ! 0)\<lparr>gpc := GtProbe\<rparr>]\<rparr>)"
  proof -
    from down_reported [THEN conjunct1] obtain s
      where r: "run ?down sched_fail_reported (init ?down) = Some s"
        and p: "getter_pcs s = [GtWgDone]"
      by (rule outcome_SomeD)
    from down_reported [THEN conjunct2] r have alive: "\<not> exited s" "\<not> crashed s"
      by (simp_all add: outcome_def)
    from p have len: "0 < length (getters s)" by (auto simp: getter_pcs_def)
    from p have pc: "gpc (getters s ! 0) = GtWgDone"
      by (cases "getters s") (auto simp: getter_pcs_def)
    from getter_reports_once [OF hd r len] pc alive
    have "step ?down (GtStep 0) s =
        Some (s\<lparr>wg := wg s - 1, getters := (getters s)[0 := (getters s ! 0)\<lparr>gpc := GtProbe\<rparr>]\<rparr>)"
      by blast
    with r len pc show ?thesis by blast
  qed
  have third: "\<exists>s. run ?cfg sched_one (init ?cfg) = Some s \<and> 0 < length (getters s) \<and>
      stuck ?cfg s \<and> sent (SGetter 0) s = 1"
  proof -
    from one_run [THEN conjunct1] obtain s
      where r: "run ?cfg sched_one (init ?cfg) = Some s" and e: "exited s"
      by (rule outcome_SomeD) simp
    from one_run [THEN conjunct2] r have "launched_urls s = [''http://h/a.png'']"
      by (simp add: outcome_def)
    then have len: "0 < length (getters s)" by (auto simp: launched_urls_def)
    from e have st: "stuck ?cfg s" by (simp add: ended_stuck)
    from getter_reports_once [OF h r len] st have "sent (SGetter 0) s = 1" by simp
    with r len st show ?thesis by blast
  qed
  from first second third show ?thesis by blast
qed

text \<open>One descriptor and a budget of 2, the fetch succeeding or failing: the run ends,
  \<open>main\<close> has returned with the Getter's reply among those it received, and the Getter
  still stands at its send on \<open>spawnerProbe\<close>.\<close>

theorem getter_left_at_probe:
  "map_option exited (outcome (example (Inr [pair_a]) 200 ''/out'' 2) sched_one) = Some True \<and>
   map_option getter_pcs (outcome (example (Inr [pair_a]) 200 ''/out'' 2) sched_one) = Some [GtProbe] \<and>
   map_option senders (outcome (example (Inr [pair_a]) 200 ''/out'' 2) sched_one)
     = Some [SGetter 0, SSpawner, SRequester, SWriter] \<and>
   map_option exited (outcome (example_down (Inr [pair_a]) ''/out'' 2) sched_fail) = Some True \<and>
   map_option getter_pcs (outcome (example_down (Inr [pair_a]) ''/out'' 2) sched_fail) = Some [GtProbe] \<and>
   map_option wg (outcome (example_down (Inr [pair_a]) ''/out'' 2) sched_fail) = Some 0 \<and>
   map_option received (outcome (example_down (Inr [pair_a]) ''/out'' 2) sched_fail) =
     Some [(SGetter 0, \<lparr>ObjType = ''Getter'', Status = Failure,
                         ErrorMsg = Some (NetError ''connection refused'')\<rparr>),
           (SSpawner, \<lparr>ObjType = ''Spawner'', Status = Success, ErrorMsg = None\<rparr>),
           (SRequester, \<lparr>ObjType = ''Requester'', Status = Success, ErrorMsg = None\<rparr>),
           (SWriter, \<lparr>ObjType = ''Writer'', Status = Success, ErrorMsg = None\<rparr>)]"
  by code_simp



text \<open>
  The same two descriptors when all iterations share one loop variable, as before Go 1.22:
  the Requester sends the address of that variable and, once the Spawner has received it,
  assigns the next element to it; the Spawner reads the URL through the address
  afterwards. Both Getters are built with the URL of \<open>b.png\<close>: \<open>a.png\<close> is never
  fetched, and the second image is written twice.
\<close>

theorem shared_variable_is_overwritten:
  "map_option launched_urls (outcome (example_shared (Inr [pair_a, pair_b]) 200 ''/out'' 2) sched_race)
     = Some [''http://h/b.png'', ''http://h/b.png''] \<and>
   map_option exited (outcome (example_shared (Inr [pair_a, pair_b]) 200 ''/out'' 2) sched_race) = Some True \<and>
   map_option (written_at ''/out/a.png'')
     (outcome (example_shared (Inr [pair_a, pair_b]) 200 ''/out'' 2) sched_race) = Some None \<and>
   map_option (written_at ''/out/b.png'')
     (outcome (example_shared (Inr [pair_a, pair_b]) 200 ''/out'' 2) sched_race) = Some (Some (File ''image'')) \<and>
   map_option (written_at ''/out/b_0.png'')
     (outcome (example_shared (Inr [pair_a, pair_b]) 200 ''/out'' 2) sched_race) = Some (Some (File ''image''))"
  by code_simp

lemma failed_run:
  "map_option rq (outcome (example (Inl (NetError ''no route to host'')) 200 ''/out'' 4)
      [RqStep, SpStep, Emit SRequester]) = Some RqDone \<and>
   map_option sp (outcome (example (Inl (NetError ''no route to host'')) 200 ''/out'' 4)
      [RqStep, SpStep, Emit SRequester]) = Some SpRecv"
  by code_simp

text \<open>
  C10. When the search fails, no run closes the descriptor channel, the content channel or
  the supervisor channel, launches a Getter or lets \<open>main\<close> return. Every run is finite,
  and when no step is possible any more, \<open>main\<close> has received the Requester's Failure
  reply and nothing else, the Requester has returned, the Spawner stands at its receive
  from the descriptor channel and the Writer at its receive from the content channel.
\<close>

theorem failed_search_hangs:
  assumes "search cfg = Inl err"
    and "run cfg sched (init cfg) = Some s"
  shows "\<not> chanPair_closed s \<and> \<not> getAndWrite_closed s \<and> \<not> opStatus_closed s \<and>
         \<not> exited s \<and> \<not> crashed s \<and> getters s = [] \<and>
         (sp s = SpStart \<or> sp s = SpRecv) \<and> (wr s = WrIdle \<or> wr s = WrRecv) \<and>
         (stuck cfg s \<longrightarrow>
            rq s = RqDone \<and> sp s = SpRecv \<and> wr s = WrRecv \<and>
            received s = [(SRequester, \<lparr>ObjType = ''Requester'', Status = Failure, ErrorMsg = Some err\<rparr>)]) \<and>
         length sched \<le> 17"
proof -
  from inv_fail_run [OF assms(2) inv_fail_init assms(1)] have f: "inv_fail cfg s" .
  from run_weight [OF assms(2)] assms(1) have "length sched \<le> 17"
    by (simp add: weight_init ndesc_def)
  moreover from f have "\<not> chanPair_closed s \<and> \<not> getAndWrite_closed s \<and> \<not> opStatus_closed s \<and>
         \<not> exited s \<and> \<not> crashed s \<and> getters s = [] \<and>
         (sp s = SpStart \<or> sp s = SpRecv) \<and> (wr s = WrIdle \<or> wr s = WrRecv)"
    by (auto simp: inv_fail_def)
  moreover have "rq s = RqDone \<and> sp s = SpRecv \<and> wr s = WrRecv \<and>
            received s = [(SRequester, \<lparr>ObjType = ''Requester'', Status = Failure, ErrorMsg = Some err\<rparr>)]"
    if "stuck cfg s"
    using fail_stuck_state [OF f assms(1) that] by (simp add: reply_def)
  ultimately show ?thesis by blast
qed

theorem failed_search_hangs_witness:
  "\<exists>s. run (example (Inl (NetError ''no route to host'')) 200 ''/out'' 4)
          [RqStep, SpStep, Emit SRequester]
          (init (example (Inl (NetError ''no route to host'')) 200 ''/out'' 4)) = Some s \<and>
       stuck (example (Inl (NetError ''no route to host'')) 200 ''/out'' 4) s \<and>
       \<not> exited s \<and> \<not> opStatus_closed s \<and>
       received s = [(SRequester, \<lparr>ObjType = ''Requester'', Status = Failure,
                                    ErrorMsg = Some (NetError ''no route to host'')\<rparr>)]"
proof -
  let ?cfg = "example (Inl (NetError ''no route to host'')) 200 ''/out'' 4"
  from failed_run [THEN conjunct1] obtain s
    where r: "run ?cfg [RqStep, SpStep, Emit SRequester] (init ?cfg) = Some s" and q: "rq s = RqDone"
    by (rule outcome_SomeD)
  from failed_run [THEN conjunct2] r have p: "sp s = SpRecv" by (simp add: outcome_def)
  have h: "search ?cfg = Inl (NetError ''no route to host'')" by (simp add: example_def)
  from inv_fail_run [OF r inv_fail_init h] have "inv_fail ?cfg s" .
  then have st: "stuck ?cfg s" using q p by (rule blocked_stuck)
  from failed_search_hangs [OF h r] st
  have "\<not> exited s \<and> \<not> opStatus_closed s \<and>
       received s = [(SRequester, \<lparr>ObjType = ''Requester'', Status = Failure,
                                    ErrorMsg = Some (NetError ''no route to host'')\<rparr>)]"
    by simp
  with r st show ?thesis by blast
qed

subsection \<open>The claims about naming, and further properties\<close>

text \<open>
  The naming the Writer's comment describes, for a path without \<open>%\<close>: if the path and
  its siblings \<open>0\<close> to \<open>k - 1\<close> are present and sibling \<open>k < 100\<close> is not,
  \<open>validFilenameMaker\<close> returns sibling \<open>k\<close> and no error.
\<close>

theorem naming_finds_first_free:
  assumes "CHR ''%'' \<notin> set P"
    and "present fs P"
    and "\<forall>j<k. present fs (sibling P j)"
    and "\<not> present fs (sibling P k)"
    and "k < maxIndices"
  shows "validFilenameMaker other fs P = ((sibling P k, None), fs)"
proof -
  define format where "format = TrimSuffix (Base P) (Ext P) @ ''_%d'' @ Ext P"
  have cand: "\<And>j. Join (Dir P) (Sprintf other format (Some j)) = sibling P j"
    unfolding format_def by (rule candidate_is_sibling [OF assms(1)])
  have "vfm_loop other fs (Dir P) format (Base P) 0
          = ((Join (Dir P) (Sprintf other format (Some k)), None), fs)"
    by (rule vfm_loop_finds [OF assms(5)]) (use assms(3,4) in \<open>simp_all add: cand\<close>)
  then have "vfm_loop other fs (Dir P) format (Base P) 0 = ((sibling P k, None), fs)"
    by (simp only: cand)
  then show ?thesis
    unfolding validFilenameMaker_present [OF assms(2)] format_def .
qed

theorem naming_finds_first_free_witness:
  "validFilenameMaker no_other disk_tmp ''/tmp/foo.png'' = ((''/tmp/foo_1.png'', None), disk_tmp)"
proof -
  have s0: "sibling ''/tmp/foo.png'' 0 = ''/tmp/foo_0.png''" by code_simp
  have s1: "sibling ''/tmp/foo.png'' (Suc 0) = ''/tmp/foo_1.png''" by code_simp
  have h1: "CHR ''%'' \<notin> set ''/tmp/foo.png''" by simp
  have h2: "present disk_tmp ''/tmp/foo.png''" by (simp add: present_iff disk_tmp_def)
  have h3: "\<forall>j<1. present disk_tmp (sibling ''/tmp/foo.png'' j)"
    by (simp add: s0 present_iff disk_tmp_def)
  have h4: "\<not> present disk_tmp (sibling ''/tmp/foo.png'' 1)"
    by (simp add: s1 present_iff disk_tmp_def)
  have h5: "(1::nat) < maxIndices" by (simp add: maxIndices_def)
  from naming_finds_first_free [OF h1 h2 h3 h4 h5, of no_other] show ?thesis by (simp add: s1)
qed

text \<open>
  For a path without \<open>%\<close>: if the path and all its siblings \<open>0\<close> to \<open>99\<close> are
  present, \<open>validFilenameMaker\<close> returns the empty path and an error.
\<close>

theorem naming_exhausted:
  assumes "CHR ''%'' \<notin> set P"
    and "present fs P"
    and "\<forall>j<maxIndices. present fs (sibling P j)"
  shows "validFilenameMaker other fs P =
           (([], Some (FmtError (''a number (maxIndices) of files have a similar name to '' @ Base P))), fs)"
proof -
  define format where "format = TrimSuffix (Base P) (Ext P) @ ''_%d'' @ Ext P"
  have cand: "\<And>j. Join (Dir P) (Sprintf other format (Some j)) = sibling P j"
    unfolding format_def by (rule candidate_is_sibling [OF assms(1)])
  have "vfm_loop other fs (Dir P) format (Base P) 0 =
      (([], Some (FmtError (''a number (maxIndices) of files have a similar name to '' @ Base P))), fs)"
    by (rule vfm_loop_exhausted) (use assms(3) in \<open>simp add: cand\<close>)
  then show ?thesis
    unfolding validFilenameMaker_present [OF assms(2)] format_def .
qed

theorem naming_exhausted_witness:
  "validFilenameMaker no_other disk_full ''/tmp/foo.png'' =
     (([], Some (FmtError ''a number (maxIndices) of files have a similar name to foo.png'')), disk_full)"
proof -
  have b: "Base ''/tmp/foo.png'' = ''foo.png''" by code_simp
  have h1: "CHR ''%'' \<notin> set ''/tmp/foo.png''" by simp
  have h2: "present disk_full ''/tmp/foo.png''" by (simp add: present_iff disk_full_def)
  have h3: "\<forall>j<maxIndices. present disk_full (sibling ''/tmp/foo.png'' j)"
    by (simp add: present_iff disk_full_def)
  from naming_exhausted [OF h1 h2 h3, of no_other] show ?thesis by (simp add: b)
qed

text \<open>
  C8. The file \<open>/tmp/%dd.png\<close> exists and none of its siblings does, so the
  name to return is sibling \<open>0\<close>, \<open>/tmp/%dd_0.png\<close>. The code builds the format string from the
  file name, \<open>%dd_%d.png\<close>: \<open>Sprintf\<close> prints the index for the first \<open>%d\<close> and has
  no argument left for the second.
\<close>

theorem percent_in_name_breaks_numbering:
  "fst (validFilenameMaker other disk_tmp ''/tmp/%dd.png'') = (''/tmp/0d_%!d(MISSING).png'', None) \<and>
   sibling ''/tmp/%dd.png'' 0 = ''/tmp/%dd_0.png'' \<and>
   present disk_tmp ''/tmp/%dd.png'' \<and> \<not> present disk_tmp (sibling ''/tmp/%dd.png'' 0)"
  by code_simp

text \<open>
  C9. \<open>validFilenameMaker\<close> leaves the file system as it found it, so it creates no
  file, and a second call with the same path returns what the first returned.
\<close>

theorem naming_idempotent:
  "snd (validFilenameMaker other fs writePath) = fs \<and>
   validFilenameMaker other (snd (validFilenameMaker other fs writePath)) writePath
     = validFilenameMaker other fs writePath"
  by (simp add: validFilenameMaker_snd)

text \<open>
  Whatever \<open>Write\<close> returns, the reply the Writer sends, and the one it is about to send,
  is Success with no error.
\<close>

theorem writer_always_reports_success:
  assumes "run cfg sched (init cfg) = Some s"
    and "wr s = WrReport r \<or> (SWriter, r) \<in> set (received s)"
  shows "r = \<lparr>ObjType = ''Writer'', Status = Success, ErrorMsg = None\<rparr>"
  using good_reached [OF assms(1)] assms(2)
  by (auto simp: good_def inv_pending_def inv_received_def reply_def)

theorem writer_always_reports_success_witness:
  "\<exists>s. run (example (Inr [pair_a]) 200 ''/missing'' 2) sched_one
          (init (example (Inr [pair_a]) 200 ''/missing'' 2)) = Some s \<and>
       (SWriter, \<lparr>ObjType = ''Writer'', Status = Success, ErrorMsg = None\<rparr>) \<in> set (received s)"
proof -
  let ?cfg = "example (Inr [pair_a]) 200 ''/missing'' 2"
  have "map_option senders (outcome ?cfg sched_one) = Some [SGetter 0, SSpawner, SRequester, SWriter]"
    by code_simp
  then obtain s where r: "run ?cfg sched_one (init ?cfg) = Some s"
    and w: "senders s = [SGetter 0, SSpawner, SRequester, SWriter]"
    by (rule outcome_SomeD)
  from w have "SWriter \<in> set (map fst (received s))" by (simp add: senders_def)
  then obtain x where x: "(SWriter, x) \<in> set (received s)" by auto
  with writer_always_reports_success [OF r, of x]
  have "x = \<lparr>ObjType = ''Writer'', Status = Success, ErrorMsg = None\<rparr>" by simp
  with r x show ?thesis by blast
qed

text \<open>
  Once the supervisor channel is closed, every descriptor has its Getter, and every Getter
  has sent its reply and called \<open>wg.Done()\<close>: no Getter sends on the closed channel.
\<close>

theorem getters_report_before_close:
  assumes "run cfg sched (init cfg) = Some s"
    and "opStatus_closed s"
    and "i < length (getters s)"
  shows "length (getters s) = ndesc cfg \<and>
         (gpc (getters s ! i) = GtProbe \<or> gpc (getters s ! i) = GtDone) \<and>
         pending_reply (SGetter i) s = None"
proof -
  note g = good_reached [OF assms(1)]
  from closed_all_reported(2) [OF g assms(2,3)]
  have "gpc (getters s ! i) = GtProbe \<or> gpc (getters s ! i) = GtDone"
    by (cases "gpc (getters s ! i)") simp_all
  then show ?thesis
    using closed_all_reported(1) [OF g assms(2)] assms(3) by (auto simp: pending_reply_def)
qed

theorem getters_report_before_close_witness:
  "\<exists>s. run (example (Inr [pair_a]) 200 ''/out'' 2) sched_one
          (init (example (Inr [pair_a]) 200 ''/out'' 2)) = Some s \<and>
       opStatus_closed s \<and> 0 < length (getters s) \<and> gpc (getters s ! 0) = GtProbe"
proof -
  let ?cfg = "example (Inr [pair_a]) 200 ''/out'' 2"
  have ev: "map_option opStatus_closed (outcome ?cfg sched_one) = Some True \<and>
        map_option getter_pcs (outcome ?cfg sched_one) = Some [GtProbe]"
    by code_simp
  from ev [THEN conjunct1] obtain s where r: "run ?cfg sched_one (init ?cfg) = Some s"
    and c: "opStatus_closed s"
    by (rule outcome_SomeD) simp
  from ev [THEN conjunct2] r have p: "getter_pcs s = [GtProbe]" by (simp add: outcome_def)
  then have len: "0 < length (getters s)" by (auto simp: getter_pcs_def)
  from p have pc: "gpc (getters s ! 0) = GtProbe"
    by (cases "getters s") (auto simp: getter_pcs_def)
  from getters_report_before_close [OF r c len] have "length (getters s) = ndesc ?cfg" by simp
  with r c len pc show ?thesis by blast
qed

end
